theory Spec2Isabelle
  imports Complex_Main "HOL-Library.Multiset" "HOL-Library.Sublist"
begin

section \<open>Numbers of type float64\<close>

text \<open>
  The geo-selection code of \<^verbatim>\<open>cmd/recordtester/recordtester.go\<close> computes with Go's
  \<^verbatim>\<open>float64\<close>.  In the model a value is NaN or a real number.  An operation on numbers
  gives the exact result when its magnitude is at most \<^verbatim>\<open>math.MaxFloat64\<close>; beyond that
  Go gives an infinity.  The two infinities are folded into \<open>NaN\<close>: every use of a
  coordinate in \<^verbatim>\<open>getDistance\<close> goes through \<^verbatim>\<open>math.Sin\<close> or \<^verbatim>\<open>math.Cos\<close>, which map
  an infinity to NaN, and a NaN operand makes every later result NaN.  What the model
  leaves out is the rounding of results within the range.
\<close>

datatype float64 = NaN | Fin real

definition MaxFloat64 :: real where
  "MaxFloat64 = 2 ^ 1023 * (2 - 1 / 2 ^ 52)"

text \<open>The result of an operation whose exact value is \<open>x\<close>.\<close>

definition fl :: "real \<Rightarrow> float64" where
  "fl x = (if \<bar>x\<bar> \<le> MaxFloat64 then Fin x else NaN)"

instantiation float64 :: "{plus, minus, times, inverse, ord}"
begin

fun plus_float64 :: "float64 \<Rightarrow> float64 \<Rightarrow> float64" where
  "plus_float64 (Fin x) (Fin y) = fl (x + y)"
| "plus_float64 _ _ = NaN"

fun minus_float64 :: "float64 \<Rightarrow> float64 \<Rightarrow> float64" where
  "minus_float64 (Fin x) (Fin y) = fl (x - y)"
| "minus_float64 _ _ = NaN"

fun times_float64 :: "float64 \<Rightarrow> float64 \<Rightarrow> float64" where
  "times_float64 (Fin x) (Fin y) = fl (x * y)"
| "times_float64 _ _ = NaN"

fun divide_float64 :: "float64 \<Rightarrow> float64 \<Rightarrow> float64" where
  "divide_float64 (Fin x) (Fin y) = (if y = 0 then NaN else fl (x / y))"
| "divide_float64 _ _ = NaN"

fun inverse_float64 :: "float64 \<Rightarrow> float64" where
  "inverse_float64 (Fin x) = (if x = 0 then NaN else fl (1 / x))"
| "inverse_float64 NaN = NaN"

text \<open>Comparisons with a NaN operand are false, as in Go.\<close>

fun less_eq_float64 :: "float64 \<Rightarrow> float64 \<Rightarrow> bool" where
  "less_eq_float64 (Fin x) (Fin y) = (x \<le> y)"
| "less_eq_float64 _ _ = False"

fun less_float64 :: "float64 \<Rightarrow> float64 \<Rightarrow> bool" where
  "less_float64 (Fin x) (Fin y) = (x < y)"
| "less_float64 _ _ = False"

instance ..

end

text \<open>The functions of Go's package \<^verbatim>\<open>math\<close> that \<^verbatim>\<open>getDistance\<close> calls.\<close>

definition math_Pi :: float64 where
  "math_Pi = Fin pi"

fun math_Sin :: "float64 \<Rightarrow> float64" where
  "math_Sin (Fin x) = Fin (sin x)"
| "math_Sin NaN = NaN"

fun math_Cos :: "float64 \<Rightarrow> float64" where
  "math_Cos (Fin x) = Fin (cos x)"
| "math_Cos NaN = NaN"

text \<open>\<^verbatim>\<open>math.Sqrt\<close> of a negative number is NaN.\<close>

fun math_Sqrt :: "float64 \<Rightarrow> float64" where
  "math_Sqrt (Fin x) = (if x < 0 then NaN else Fin (sqrt x))"
| "math_Sqrt NaN = NaN"

text \<open>
  \<^verbatim>\<open>math.Atan2(y, x)\<close> is the angle of the point \<open>(x, y)\<close>, in the quadrant given by
  the two signs; a NaN argument gives NaN.
\<close>

definition atan2 :: "real \<Rightarrow> real \<Rightarrow> real" where
  "atan2 y x =
     (if 0 < x then arctan (y / x)
      else if x < 0 then (if 0 \<le> y then arctan (y / x) + pi else arctan (y / x) - pi)
      else if 0 < y then pi / 2
      else if y < 0 then - (pi / 2)
      else 0)"

fun math_Atan2 :: "float64 \<Rightarrow> float64 \<Rightarrow> float64" where
  "math_Atan2 (Fin y) (Fin x) = Fin (atan2 y x)"
| "math_Atan2 _ _ = NaN"

section \<open>Distance between two points\<close>

definition earthRadius :: float64 where
  "earthRadius = Fin 6371"

text \<open>
  \<^verbatim>\<open>getDistance\<close>, statement by statement.  The arguments of the sines are the full
  differences \<^verbatim>\<open>lat2-lat1\<close> and \<^verbatim>\<open>lon2-lon1\<close>, as the source has them.
\<close>

definition getDistance :: "float64 \<Rightarrow> float64 \<Rightarrow> float64 \<Rightarrow> float64 \<Rightarrow> float64" where
  "getDistance lat1_deg lon1_deg lat2_deg lon2_deg =
     (let lat1 = lat1_deg * math_Pi / Fin 180;
          lon1 = lon1_deg * math_Pi / Fin 180;
          lat2 = lat2_deg * math_Pi / Fin 180;
          lon2 = lon2_deg * math_Pi / Fin 180;
          a = math_Sin (lat2 - lat1) * math_Sin (lat2 - lat1) +
              math_Cos lat1 * math_Cos lat2 *
                math_Sin (lon2 - lon1) * math_Sin (lon2 - lon1);
          c = Fin 2 * math_Atan2 (math_Sqrt a) (math_Sqrt (Fin 1 - a));
          distance = earthRadius * c
      in distance)"

text \<open>
  The formula the specification gives for the same quantity: the haversine formula, with
  the half differences under the sines.
\<close>

definition haversine_a :: "real \<Rightarrow> real \<Rightarrow> real \<Rightarrow> real \<Rightarrow> real" where
  "haversine_a lat1 lon1 lat2 lon2 =
     (sin ((lat2 - lat1) / 2))\<^sup>2 + cos lat1 * cos lat2 * (sin ((lon2 - lon1) / 2))\<^sup>2"

definition haversine :: "real \<Rightarrow> real \<Rightarrow> real \<Rightarrow> real \<Rightarrow> real" where
  "haversine lat1_deg lon1_deg lat2_deg lon2_deg =
     (let lat1 = lat1_deg * pi / 180; lon1 = lon1_deg * pi / 180;
          lat2 = lat2_deg * pi / 180; lon2 = lon2_deg * pi / 180;
          a = haversine_a lat1 lon1 lat2 lon2
      in 2 * 6371 * atan2 (sqrt a) (sqrt (1 - a)))"

section \<open>Selecting the closest nodes\<close>

text \<open>
  A member of the node list, as the membership client reports it.  The selection reads
  nothing but the tags; the name and the address stand for the rest of the structure.
  Reading a key that a Go map does not hold gives the empty string.
\<close>

record Member =
  Name :: string
  Addr :: string
  Tags :: "string \<rightharpoonup> string"

definition tag :: "Member \<Rightarrow> string \<Rightarrow> string" where
  "tag member k = (case Tags member k of None \<Rightarrow> [] | Some v \<Rightarrow> v)"

record geolocateSerfNodes =
  Key :: string
  Latitude :: float64
  Longitude :: float64
  Distance :: float64
  Nodes :: "Member list"

text \<open>\<^verbatim>\<open>findInSlice\<close>: the index of the first entry with the key, or \<open>-1\<close>.\<close>

fun findInSlice_from :: "nat \<Rightarrow> geolocateSerfNodes list \<Rightarrow> string \<Rightarrow> int" where
  "findInSlice_from i [] key = - 1"
| "findInSlice_from i (v # slice) key =
     (if Key v = key then int i else findInSlice_from (Suc i) slice key)"

definition findInSlice :: "geolocateSerfNodes list \<Rightarrow> string \<Rightarrow> int" where
  "findInSlice slice key = findInSlice_from 0 slice key"

definition getMemberLocation :: "Member \<Rightarrow> string \<times> string" where
  "getMemberLocation member = (tag member ''latitude'', tag member ''longitude'')"

text \<open>The closure \<^verbatim>\<open>locationKey\<close>: \<^verbatim>\<open>fmt.Sprintf("%s-%s", x, y)\<close>.\<close>

definition locationKey :: "string \<Rightarrow> string \<Rightarrow> string" where
  "locationKey x y = x @ ''-'' @ y"

definition memberKey :: "Member \<Rightarrow> string" where
  "memberKey member = (case getMemberLocation member of (x2, y2) \<Rightarrow> locationKey x2 y2)"

text \<open>
  \<^verbatim>\<open>strconv.ParseFloat\<close> belongs to Go's standard library, so the selection takes it as a
  parameter: a function from the text to the pair of the value and whether an error came
  with it.  The source keeps the value and drops the error
  (\<^verbatim>\<open>lat2, _ := strconv.ParseFloat(x2, 64)\<close>).
\<close>

type_synonym parser = "string \<Rightarrow> float64 \<times> bool"

text \<open>
  Indexing a slice out of its range panics in Go.  The model makes the panic a result, so
  that its absence is a theorem.
\<close>

datatype panic = IndexOutOfRange

text \<open>
  The body of the first loop of \<^verbatim>\<open>getClosestSerfNodes\<close>: a member whose key is new
  founds a group, with the distance of its own location; any other member joins the group
  of its key.
\<close>

definition addMember ::
  "parser \<Rightarrow> float64 \<Rightarrow> float64 \<Rightarrow> geolocateSerfNodes list \<Rightarrow> Member \<Rightarrow>
     panic + geolocateSerfNodes list" where
  "addMember ParseFloat lat long nodeDistances member =
     (case getMemberLocation member of (x2, y2) \<Rightarrow>
        let key = locationKey x2 y2;
            index = findInSlice nodeDistances key
        in if index = - 1 then
             let lat2 = fst (ParseFloat x2);
                 long2 = fst (ParseFloat y2);
                 distance = getDistance lat long lat2 long2;
                 node = \<lparr>Key = key, Latitude = lat2, Longitude = long2,
                         Distance = distance, Nodes = [member]\<rparr>
             in Inr (nodeDistances @ [node])
           else if 0 \<le> index \<and> index < int (length nodeDistances) then
             let node = nodeDistances ! nat index;
                 node = node\<lparr>Nodes := Nodes node @ [member]\<rparr>
             in Inr (nodeDistances[nat index := node])
           else Inl IndexOutOfRange)"

fun groupMembers ::
  "parser \<Rightarrow> float64 \<Rightarrow> float64 \<Rightarrow> geolocateSerfNodes list \<Rightarrow> Member list \<Rightarrow>
     panic + geolocateSerfNodes list" where
  "groupMembers ParseFloat lat long nodeDistances [] = Inr nodeDistances"
| "groupMembers ParseFloat lat long nodeDistances (member # serfMembers) =
     (case addMember ParseFloat lat long nodeDistances member of
        Inl e \<Rightarrow> Inl e
      | Inr nodeDistances' \<Rightarrow> groupMembers ParseFloat lat long nodeDistances' serfMembers)"

text \<open>
  \<^verbatim>\<open>sort.Slice\<close> is the standard library's.  For a slice of at most twelve elements it
  runs the insertion sort below (\<^verbatim>\<open>insertionSort_func\<close>): element \<open>i\<close> moves to the
  left for as long as \<^verbatim>\<open>less\<close> ranks it before its left neighbour.  The sorted part is
  kept in reverse, its last element first, so that the inner loop is a recursion on it.
  A longer slice goes through the library's pattern-defeating quicksort, which is not
  reproduced here: it is a parameter of the model.
\<close>

fun insertLess :: "('a \<Rightarrow> 'a \<Rightarrow> bool) \<Rightarrow> 'a \<Rightarrow> 'a list \<Rightarrow> 'a list" where
  "insertLess lessFn x [] = [x]"
| "insertLess lessFn x (p # ps) =
     (if lessFn x p then p # insertLess lessFn x ps else x # p # ps)"

fun insertionSort_from :: "('a \<Rightarrow> 'a \<Rightarrow> bool) \<Rightarrow> 'a list \<Rightarrow> 'a list \<Rightarrow> 'a list" where
  "insertionSort_from lessFn front [] = rev front"
| "insertionSort_from lessFn front (x # xs) =
     insertionSort_from lessFn (insertLess lessFn x front) xs"

definition insertionSort_func :: "('a \<Rightarrow> 'a \<Rightarrow> bool) \<Rightarrow> 'a list \<Rightarrow> 'a list" where
  "insertionSort_func lessFn xs = insertionSort_from lessFn [] xs"

type_synonym 'a sorter = "('a \<Rightarrow> 'a \<Rightarrow> bool) \<Rightarrow> 'a list \<Rightarrow> 'a list"

definition sort_Slice :: "'a sorter \<Rightarrow> ('a \<Rightarrow> 'a \<Rightarrow> bool) \<Rightarrow> 'a list \<Rightarrow> 'a list" where
  "sort_Slice pdqsort_func lessFn xs =
     (if length xs \<le> 12 then insertionSort_func lessFn xs else pdqsort_func lessFn xs)"

text \<open>The comparison the source hands to \<^verbatim>\<open>sort.Slice\<close>.\<close>

definition byDistance :: "geolocateSerfNodes \<Rightarrow> geolocateSerfNodes \<Rightarrow> bool" where
  "byDistance ni nj = (Distance ni \<le> Distance nj)"

text \<open>
  The second loop: whole groups are appended, in order, while fewer than
  \<^verbatim>\<open>selectNodeCount\<close> members have been collected and groups remain.
\<close>

fun collectNodes :: "int \<Rightarrow> Member list \<Rightarrow> geolocateSerfNodes list \<Rightarrow> Member list" where
  "collectNodes selectNodeCount returnMembers [] = returnMembers"
| "collectNodes selectNodeCount returnMembers (node # nodeDistances) =
     (if int (length returnMembers) < selectNodeCount
      then collectNodes selectNodeCount (returnMembers @ Nodes node) nodeDistances
      else returnMembers)"

text \<open>
  \<^verbatim>\<open>getClosestSerfNodes\<close>.  A nil slice and the empty slice are both the empty list, and
  both come back as the empty list.  The first two parameters are the library's: the
  sorting algorithm for long slices and \<^verbatim>\<open>strconv.ParseFloat\<close>.
\<close>

definition getClosestSerfNodes ::
  "geolocateSerfNodes sorter \<Rightarrow> parser \<Rightarrow> Member list \<Rightarrow> int \<Rightarrow> float64 \<Rightarrow> float64 \<Rightarrow>
     panic + Member list" where
  "getClosestSerfNodes pdqsort_func ParseFloat serfMembers selectNodeCount lat long =
     (if serfMembers = [] then Inr []
      else case groupMembers ParseFloat lat long [] serfMembers of
             Inl e \<Rightarrow> Inl e
           | Inr nodeDistances \<Rightarrow>
               Inr (collectNodes selectNodeCount []
                      (sort_Slice pdqsort_func byDistance nodeDistances)))"


text \<open>
  The fragment of \<^verbatim>\<open>strconv.ParseFloat\<close> that the concrete examples below need.  A
  decimal integer with an optional sign is parsed to its value, without error (beyond the
  range of \<^verbatim>\<open>float64\<close> the library returns an infinity and a range error).  For text
  that is not a number the library returns the value 0 together with a syntax error.  The
  library also accepts fractions, exponents, hexadecimal literals and the words
  \<^verbatim>\<open>nan\<close>, \<^verbatim>\<open>inf\<close> and \<^verbatim>\<open>infinity\<close>; these lie outside the fragment and no
  theorem below evaluates it on them.
\<close>

definition digit_of :: "char \<Rightarrow> nat option" where
  "digit_of c =
     (if of_char (CHR ''0'') \<le> (of_char c :: nat) \<and> (of_char c :: nat) \<le> of_char (CHR ''9'')
      then Some (of_char c - of_char (CHR ''0'')) else None)"

fun digits_value :: "nat \<Rightarrow> string \<Rightarrow> nat option" where
  "digits_value acc [] = Some acc"
| "digits_value acc (c # cs) =
     (case digit_of c of None \<Rightarrow> None | Some d \<Rightarrow> digits_value (10 * acc + d) cs)"

definition unsigned_value :: "string \<Rightarrow> real option" where
  "unsigned_value s = (if s = [] then None else map_option real (digits_value 0 s))"

definition signed_value :: "string \<Rightarrow> real option" where
  "signed_value s =
     (case s of
        [] \<Rightarrow> None
      | c # r \<Rightarrow>
          if c = CHR ''-'' then map_option uminus (unsigned_value r)
          else if c = CHR ''+'' then unsigned_value r
          else unsigned_value (c # r))"

definition strconv_ParseFloat :: parser where
  "strconv_ParseFloat s =
     (case signed_value s of
        None \<Rightarrow> (Fin 0, True)
      | Some v \<Rightarrow> if \<bar>v\<bar> \<le> MaxFloat64 then (Fin v, False) else (NaN, True))"

section \<open>Notions used to state the properties of the selection\<close>

text \<open>All members held by a list of groups, group after group.\<close>

definition membersOf :: "geolocateSerfNodes list \<Rightarrow> Member list" where
  "membersOf nodeDistances = concat (map Nodes nodeDistances)"

text \<open>No two groups share a key, and every member of a group has the group's key.\<close>

definition wellGrouped :: "geolocateSerfNodes list \<Rightarrow> bool" where
  "wellGrouped nodeDistances =
     (distinct (map Key nodeDistances) \<and>
      (\<forall>g \<in> set nodeDistances. \<forall>m \<in> set (Nodes g). memberKey m = Key g))"

text \<open>
  The distance from the origin to the point that a member's own tags give, with each tag
  replaced by the value the parser returns for it (error or not).
\<close>

definition pointDistance :: "parser \<Rightarrow> float64 \<Rightarrow> float64 \<Rightarrow> Member \<Rightarrow> float64" where
  "pointDistance ParseFloat lat long member =
     (case getMemberLocation member of (x2, y2) \<Rightarrow>
        getDistance lat long (fst (ParseFloat x2)) (fst (ParseFloat y2)))"

text \<open>
  Every group carries the distance of the first processed member with the group's key.
\<close>

definition located ::
  "parser \<Rightarrow> float64 \<Rightarrow> float64 \<Rightarrow> Member list \<Rightarrow> geolocateSerfNodes list \<Rightarrow> bool" where
  "located ParseFloat lat long processed nodeDistances =
     (\<forall>g \<in> set nodeDistances.
        \<exists>m'. find (\<lambda>x. memberKey x = Key g) processed = Some m' \<and>
             Distance g = pointDistance ParseFloat lat long m')"

text \<open>
  Every group is not empty and holds exactly the processed members with the group's key, in
  the order in which they were processed.
\<close>

definition wholeGroups :: "Member list \<Rightarrow> geolocateSerfNodes list \<Rightarrow> bool" where
  "wholeGroups processed nodeDistances =
     (\<forall>g \<in> set nodeDistances.
        Nodes g \<noteq> [] \<and> Nodes g = filter (\<lambda>m. memberKey m = Key g) processed)"

definition groupsFor ::
  "parser \<Rightarrow> float64 \<Rightarrow> float64 \<Rightarrow> Member list \<Rightarrow> geolocateSerfNodes list \<Rightarrow> bool" where
  "groupsFor ParseFloat lat long processed nodeDistances =
     (wellGrouped nodeDistances \<and>
      mset (membersOf nodeDistances) = mset processed \<and>
      located ParseFloat lat long processed nodeDistances \<and>
      wholeGroups processed nodeDistances)"



subsection \<open>Example nodes\<close>

definition memberAt :: "string \<Rightarrow> string \<Rightarrow> string \<Rightarrow> Member" where
  "memberAt n x y =
     \<lparr>Name = n, Addr = [], Tags = [''latitude'' \<mapsto> x, ''longitude'' \<mapsto> y]\<rparr>"

text \<open>Seen from the origin \<open>(0, 0)\<close>: two nodes at one place, and one with unusable tags.\<close>

definition near :: Member where
  "near = memberAt ''near'' ''1'' ''0''"

definition twin :: Member where
  "twin = memberAt ''twin'' ''1'' ''0''"

definition broken :: Member where
  "broken = memberAt ''broken'' ''abc'' ''xyz''"

text \<open>
  Seen from the origin \<open>(0, 0)\<close>: a node two degrees to the north, and a node almost on
  the other side of the globe.
\<close>

definition nearby :: Member where
  "nearby = memberAt ''nearby'' ''2'' ''0''"

definition farAway :: Member where
  "farAway = memberAt ''farAway'' ''0'' ''179''"

text \<open>Seen from the origin \<open>(-45, 0)\<close>: three nodes with ordinary coordinates.\<close>

definition southEast :: Member where
  "southEast = memberAt ''southEast'' ''-45'' ''90''"

definition northEast :: Member where
  "northEast = memberAt ''northEast'' ''45'' ''90''"

definition home :: Member where
  "home = memberAt ''home'' ''-45'' ''0''"

section \<open>Errors\<close>

text \<open>
  Go's \<^verbatim>\<open>error\<close> values, as far as the code under study makes and tells them apart:
  the sentinel \<^verbatim>\<open>context.Canceled\<close>, an error made by \<^verbatim>\<open>fmt.Errorf\<close> from a message
  (with a number formatted into it, or wrapping another error with \<^verbatim>\<open>%w\<close>).  A wrapped
  error is a new value: it is never equal to the error it wraps.  The nil error is
  \<open>None\<close> of type \<open>error option\<close>.
\<close>

datatype error =
    Canceled
  | Errorf string
  | ErrorfFloat string float64
  | Wrapped string error

section \<open>Leaving the process\<close>

text \<open>
  The closures \<^verbatim>\<open>cleanup\<close> and \<^verbatim>\<open>exit\<close> of \<^verbatim>\<open>main\<close> in
  \<^verbatim>\<open>cmd/recordtester/recordtester.go\<close>.  What they do to the outside is recorded as a
  list of effects, in order; the second component of the result of \<open>exit\<close> is the code
  handed to \<^verbatim>\<open>os.Exit\<close>.
\<close>

datatype effect =
    Remove string
  | PrintError error
  | LogTestFailed int "error option"

definition cleanup :: "string \<Rightarrow> string \<Rightarrow> effect list" where
  "cleanup fn fa = (if fn \<noteq> fa then [Remove fn] else [])"

definition exit :: "int \<Rightarrow> string \<Rightarrow> string \<Rightarrow> error option \<Rightarrow> effect list \<times> int" where
  "exit exitCode fn fa err =
     (let out = cleanup fn fa
      in if err \<noteq> Some Canceled then
           let out = (case err of None \<Rightarrow> out | Some e \<Rightarrow> out @ [PrintError e]);
               out = (if exitCode \<noteq> 0 then out @ [LogTestFailed exitCode err] else out)
           in (out, exitCode)
         else (out, 0))"

text \<open>The effects that report a failure: the printed error and the logged failure.\<close>

fun isReport :: "effect \<Rightarrow> bool" where
  "isReport (Remove f) = False"
| "isReport (PrintError e) = True"
| "isReport (LogTestFailed c e) = True"

section \<open>Checking playback\<close>

text \<open>
  The data \<^verbatim>\<open>checkPlayback\<close> of \<^verbatim>\<open>internal/app/vodtester/vodtester_app.go\<close> reads from
  the API client, reduced to the fields it reads: \<^verbatim>\<open>asset.VideoSpec.DurationSec\<close>,
  \<^verbatim>\<open>asset.PlaybackID\<close>, the list \<^verbatim>\<open>pinfo.Meta.Source\<close> with the type and the url of
  each source, and the entries of the map \<^verbatim>\<open>stats.SegmentsNum\<close>, one per rendition.
  The type of a source is compared with one constant only,
  \<^verbatim>\<open>api.PlaybackInfoSourceTypeHLS\<close>.  The duration is decoded from a JSON document,
  which cannot hold an infinity, so a number or NaN covers it.
\<close>

datatype sourceType = PlaybackInfoSourceTypeHLS | OtherSourceType string

record PlaybackInfoSource =
  Type :: sourceType
  Url :: string

record PlaybackInfo =
  Source :: "PlaybackInfoSource list"

record Asset =
  ID :: string
  PlaybackID :: string
  DurationSec :: float64

record Stats =
  SegmentsNum :: "(string \<times> int) list"

text \<open>
  The calls that leave the repository's sources are parameters: the two methods of the
  API client, and \<^verbatim>\<open>m3u8.CheckStats\<close>, which gets the url and the duration (the
  conversion of the duration to whole nanoseconds is left to it).
\<close>

record Client =
  GetAsset :: "string \<Rightarrow> error + Asset"
  GetPlaybackInfo :: "string \<Rightarrow> error + PlaybackInfo"

type_synonym checkStats = "string \<Rightarrow> float64 \<Rightarrow> error + Stats"

text \<open>The loop over the sources: the url of the first HLS source, or the empty string.\<close>

fun firstHLSUrl :: "PlaybackInfoSource list \<Rightarrow> string" where
  "firstHLSUrl [] = []"
| "firstHLSUrl (src # srcs) =
     (if Type src = PlaybackInfoSourceTypeHLS then Url src else firstHLSUrl srcs)"

definition checkPlayback :: "Client \<Rightarrow> checkStats \<Rightarrow> string \<Rightarrow> error option" where
  "checkPlayback Lapi CheckStats assetID =
     (case GetAsset Lapi assetID of
        Inl err \<Rightarrow> Some (Wrapped ''error getting asset'' err)
      | Inr asset \<Rightarrow>
          if DurationSec asset \<le> Fin 0 then
            Some (ErrorfFloat ''missing asset duration'' (DurationSec asset))
          else
            let duration = DurationSec asset * Fin 1000000000
            in case GetPlaybackInfo Lapi (PlaybackID asset) of
                 Inl err \<Rightarrow> Some (Wrapped ''error getting playback info'' err)
               | Inr pinfo \<Rightarrow>
                   let url = firstHLSUrl (Source pinfo)
                   in if url = [] then Some (Errorf ''no HLS source found in playback info'')
                      else case CheckStats url duration of
                             Inl err \<Rightarrow> Some err
                           | Inr stats \<Rightarrow>
                               if length (SegmentsNum stats) \<le> 1 then
                                 Some (Errorf ''no transcoded renditions found in playlist'')
                               else None)"

text \<open>Whether an HLS source is among the sources.\<close>

definition hasHLS :: "PlaybackInfoSource list \<Rightarrow> bool" where
  "hasHLS srcs = (PlaybackInfoSourceTypeHLS \<in> Type ` set srcs)"

text \<open>
  An API that reports an asset without duration and without any playback source, for the
  examples.
\<close>

definition emptyAsset :: Asset where
  "emptyAsset = \<lparr>ID = ''asset'', PlaybackID = ''playback'', DurationSec = Fin 0\<rparr>"

definition emptyClient :: Client where
  "emptyClient =
     \<lparr>GetAsset = (\<lambda>assetID. Inr emptyAsset),
      GetPlaybackInfo = (\<lambda>playbackID. Inr \<lparr>Source = []\<rparr>)\<rparr>"

definition noStats :: checkStats where
  "noStats url duration = Inr \<lparr>SegmentsNum = []\<rparr>"

text \<open>An API that reports a duration, and an mp4 source only.\<close>

definition mp4Client :: Client where
  "mp4Client =
     \<lparr>GetAsset = (\<lambda>assetID. Inr \<lparr>ID = assetID, PlaybackID = ''playback'', DurationSec = Fin 120\<rparr>),
      GetPlaybackInfo = (\<lambda>playbackID.
        Inr \<lparr>Source = [\<lparr>Type = OtherSourceType ''mp4'', Url = ''https://cdn/video.mp4''\<rparr>]\<rparr>)\<rparr>"

text \<open>An API and a manifest that pass every check.\<close>

definition goodClient :: Client where
  "goodClient =
     \<lparr>GetAsset = (\<lambda>assetID. Inr \<lparr>ID = assetID, PlaybackID = ''playback'', DurationSec = Fin 120\<rparr>),
      GetPlaybackInfo = (\<lambda>playbackID.
        Inr \<lparr>Source = [\<lparr>Type = OtherSourceType ''mp4'', Url = ''https://cdn/video.mp4''\<rparr>,
                         \<lparr>Type = PlaybackInfoSourceTypeHLS, Url = ''https://cdn/index.m3u8''\<rparr>]\<rparr>)\<rparr>"

definition twoRenditions :: checkStats where
  "twoRenditions url duration = Inr \<lparr>SegmentsNum = [(''source'', 60), (''360p'', 60)]\<rparr>"

definition oneRendition :: checkStats where
  "oneRendition url duration = Inr \<lparr>SegmentsNum = [(''source'', 60)]\<rparr>"

section \<open>Patching the host of a url\<close>

text \<open>
  The structure \<^verbatim>\<open>url.URL\<close> of Go's package \<^verbatim>\<open>net/url\<close>, with the components a url
  is made of.  \<^verbatim>\<open>patchURLHost\<close> reads and writes \<^verbatim>\<open>Scheme\<close> and \<^verbatim>\<open>Host\<close>.
\<close>

record URL =
  Scheme :: string
  Opaque :: string
  User :: string
  Host :: string
  Path :: string
  RawQuery :: string
  Fragment :: string

text \<open>\<^verbatim>\<open>strings.Contains\<close>: whether the second string occurs in the first.\<close>

fun strings_Contains :: "string \<Rightarrow> string \<Rightarrow> bool" where
  "strings_Contains [] substr = (substr = [])"
| "strings_Contains (c # s) substr = (prefix substr (c # s) \<or> strings_Contains s substr)"

text \<open>
  \<^verbatim>\<open>url.Parse\<close> and the method \<^verbatim>\<open>String\<close> are the standard library's and are
  parameters of the model.  \<^verbatim>\<open>patchURLHost\<close> of
  \<^verbatim>\<open>internal/app/vodtester/vodtester_app.go\<close>: when a url does not parse, the target
  text is returned; otherwise the parsed target is written out again, with the scheme and
  the host of the source unless the target's host contains the source's host.
\<close>

definition patchURLHost ::
  "(string \<Rightarrow> error + URL) \<Rightarrow> (URL \<Rightarrow> string) \<Rightarrow> string \<Rightarrow> string \<Rightarrow> string" where
  "patchURLHost url_Parse URL_String target src =
     (case url_Parse target of
        Inl err \<Rightarrow> target
      | Inr targetURL \<Rightarrow>
          (case url_Parse src of
             Inl err \<Rightarrow> target
           | Inr srcURL \<Rightarrow>
               let targetURL =
                     (if \<not> strings_Contains (Host targetURL) (Host srcURL)
                      then targetURL\<lparr>Scheme := Scheme srcURL, Host := Host srcURL\<rparr>
                      else targetURL)
               in URL_String targetURL))"

text \<open>
  The fragment of the library's parser and printer that the examples below need: urls of
  the shape \<^verbatim>\<open>scheme://host/path\<close> with a scheme of letters and a host and a path of
  letters, digits, dots, dashes and slashes.  On these the library splits the text at
  \<^verbatim>\<open>://\<close> and at the first slash after it, stores the scheme in lower case, and prints
  the parts back with \<^verbatim>\<open>://\<close> between scheme and host.  Everything else the library
  accepts (user, port, query, fragment, escapes, relative references) lies outside the
  fragment, is refused by this parser, and is not used in any theorem below.
\<close>

definition isLetter :: "char \<Rightarrow> bool" where
  "isLetter c =
     ((of_char (CHR ''a'') \<le> (of_char c :: nat) \<and> (of_char c :: nat) \<le> of_char (CHR ''z'')) \<or>
      (of_char (CHR ''A'') \<le> (of_char c :: nat) \<and> (of_char c :: nat) \<le> of_char (CHR ''Z'')))"

definition isPlain :: "char \<Rightarrow> bool" where
  "isPlain c =
     (isLetter c \<or>
      (of_char (CHR ''0'') \<le> (of_char c :: nat) \<and> (of_char c :: nat) \<le> of_char (CHR ''9'')) \<or>
      c = CHR ''.'' \<or> c = CHR ''-'')"

text \<open>In ASCII a capital letter and its small letter differ in the bit of value 32.\<close>

definition toLower :: "char \<Rightarrow> char" where
  "toLower c =
     (if of_char (CHR ''A'') \<le> (of_char c :: nat) \<and> (of_char c :: nat) \<le> of_char (CHR ''Z'')
      then (case c of Char b0 b1 b2 b3 b4 b5 b6 b7 \<Rightarrow> Char b0 b1 b2 b3 b4 True b6 b7)
      else c)"

definition url_Parse_plain :: "string \<Rightarrow> error + URL" where
  "url_Parse_plain rawURL =
     (let scheme = takeWhile isLetter rawURL;
          rest = dropWhile isLetter rawURL;
          authority = takeWhile (\<lambda>c. c \<noteq> CHR ''/'') (drop 3 rest);
          path = dropWhile (\<lambda>c. c \<noteq> CHR ''/'') (drop 3 rest)
      in if scheme \<noteq> [] \<and> take 3 rest = ''://'' \<and> authority \<noteq> [] \<and>
            list_all isPlain authority \<and> list_all (\<lambda>c. isPlain c \<or> c = CHR ''/'') path
         then Inr \<lparr>Scheme = map toLower scheme, Opaque = [], User = [], Host = authority,
                   Path = path, RawQuery = [], Fragment = []\<rparr>
         else Inl (Errorf ''not a plain url''))"

definition URL_String_plain :: "URL \<Rightarrow> string" where
  "URL_String_plain u = Scheme u @ ''://'' @ Host u @ Path u"

section \<open>Running the phases of the VOD test\<close>

text \<open>
  \<^verbatim>\<open>Start\<close> of \<^verbatim>\<open>internal/app/vodtester/vodtester_app.go\<close> hands three closures to an
  error group and waits for them.  The closures run concurrently; what the model keeps of
  a run is the order in which things happen to the shared state, as a list of events.
\<close>

datatype phase = UrlImport | DirectUpload | ResumableUpload

text \<open>
  The state of one run: for each phase the value its closure returned, once it has
  returned; the error the group has recorded (\<^verbatim>\<open>g.err\<close>); whether the group's context
  \<^verbatim>\<open>egCtx\<close> and the session's own context \<^verbatim>\<open>vt.Ctx\<close> are cancelled; whether the
  goroutine that waits for \<^verbatim>\<open>egCtx.Done()\<close> has run; and what \<^verbatim>\<open>Start\<close> returned, once
  it has returned.
\<close>

record session =
  finished :: "phase \<Rightarrow> error option option"
  egErr :: "error option"
  egCtxDone :: bool
  vtCtxDone :: bool
  watcherDone :: bool
  result :: "error option option"

text \<open>
  Modelled from the spec: the methods \<^verbatim>\<open>Cancel\<close> and \<^verbatim>\<open>Done\<close> of
  \<^verbatim>\<open>common.TesterApp\<close> (package \<^verbatim>\<open>internal/app/common\<close>, which is not among the
  sources).  The specification gives the session a cancellable lifetime with a cancellation
  handle and a done signal, says that cancellation propagates from a parent to its
  children and never upward, and that a cancelled lifetime never resumes.  So \<open>Cancel\<close>
  cancels the session's context, and with it the group's context, which was derived from
  it; \<open>Done\<close> is the state of the session's context.
\<close>

definition Cancel :: "session \<Rightarrow> session" where
  "Cancel vt = vt\<lparr>vtCtxDone := True, egCtxDone := True\<rparr>"

definition Done :: "session \<Rightarrow> bool" where
  "Done vt = vtCtxDone vt"

text \<open>
  \<^verbatim>\<open>NewVodTester\<close> derives the session's context from the global one, so it starts out
  cancelled exactly when the global context is.
\<close>

definition NewVodTester :: "bool \<Rightarrow> session" where
  "NewVodTester gctxDone =
     \<lparr>finished = (\<lambda>p. None), egErr = None, egCtxDone = gctxDone, vtCtxDone = gctxDone,
      watcherDone = False, result = None\<rparr>"

text \<open>
  The beginning of \<^verbatim>\<open>Start\<close>: \<^verbatim>\<open>errgroup.WithContext(vt.Ctx)\<close> makes a fresh group with
  a context derived from the session's, then the three closures and the waiting goroutine
  are launched.
\<close>

definition Start_begin :: "session \<Rightarrow> session" where
  "Start_begin vt =
     vt\<lparr>finished := (\<lambda>p. None), egErr := None, egCtxDone := vtCtxDone vt,
        watcherDone := False, result := None\<rparr>"

text \<open>
  What can happen next.  A closure returns: the group stores the first error that is not
  nil and cancels its context (\<^verbatim>\<open>errOnce\<close>).  The session's lifetime is cancelled from
  outside, through its handle or through the global context.  The waiting goroutine sees
  \<^verbatim>\<open>egCtx.Done()\<close> and calls \<^verbatim>\<open>vt.Cancel()\<close>.  \<^verbatim>\<open>eg.Wait()\<close> returns, which needs all
  three closures to have returned: it cancels the group's context and yields the stored
  error, \<^verbatim>\<open>Start\<close> returns that error, and the deferred \<^verbatim>\<open>vt.Cancel()\<close> runs.
\<close>

datatype event =
    PhaseReturns phase "error option"
  | LifetimeCancelled
  | WatcherWakes
  | WaitReturns

definition recordError :: "error option \<Rightarrow> session \<Rightarrow> session" where
  "recordError r vt =
     (case r of
        None \<Rightarrow> vt
      | Some err \<Rightarrow>
          if egErr vt = None then vt\<lparr>egErr := Some err, egCtxDone := True\<rparr> else vt)"

definition allReturned :: "session \<Rightarrow> bool" where
  "allReturned vt =
     (finished vt UrlImport \<noteq> None \<and> finished vt DirectUpload \<noteq> None \<and>
      finished vt ResumableUpload \<noteq> None)"

fun step :: "event \<Rightarrow> session \<Rightarrow> session option" where
  "step (PhaseReturns p r) vt =
     (if finished vt p = None
      then Some (recordError r (vt\<lparr>finished := (finished vt)(p := Some r)\<rparr>))
      else None)"
| "step LifetimeCancelled vt = Some (Cancel vt)"
| "step WatcherWakes vt =
     (if egCtxDone vt \<and> \<not> watcherDone vt
      then Some (Cancel (vt\<lparr>watcherDone := True\<rparr>))
      else None)"
| "step WaitReturns vt =
     (if allReturned vt \<and> result vt = None
      then Some (Cancel (vt\<lparr>egCtxDone := True, result := Some (egErr vt)\<rparr>))
      else None)"

fun run :: "event list \<Rightarrow> session \<Rightarrow> session option" where
  "run [] vt = Some vt"
| "run (e # es) vt = (case step e vt of None \<Rightarrow> None | Some vt' \<Rightarrow> run es vt')"

text \<open>
  The first error that a closure returned in a run, if any: what the documentation of the
  error group promises as the result of \<^verbatim>\<open>Wait\<close>.
\<close>

fun firstError :: "event list \<Rightarrow> error option" where
  "firstError [] = None"
| "firstError (PhaseReturns p None # es) = firstError es"
| "firstError (PhaseReturns p (Some err) # es) = Some err"
| "firstError (LifetimeCancelled # es) = firstError es"
| "firstError (WatcherWakes # es) = firstError es"
| "firstError (WaitReturns # es) = firstError es"

text \<open>What holds of every state of a run.\<close>

definition consistent :: "session \<Rightarrow> bool" where
  "consistent vt =
     ((egErr vt = None \<longrightarrow> (\<forall>p e. finished vt p \<noteq> Some (Some e))) \<and>
      (\<forall>e. egErr vt = Some e \<longrightarrow> (\<exists>p. finished vt p = Some (Some e))) \<and>
      (egErr vt \<noteq> None \<longrightarrow> egCtxDone vt) \<and>
      (vtCtxDone vt \<longrightarrow> egCtxDone vt) \<and>
      (watcherDone vt \<longrightarrow> vtCtxDone vt) \<and>
      (\<forall>r. result vt = Some r \<longrightarrow> r = egErr vt \<and> vtCtxDone vt \<and> allReturned vt))"

text \<open>Example errors and runs.\<close>

definition uploadFailed :: error where
  "uploadFailed = Wrapped ''error in direct upload task'' (Errorf ''error requesting upload'')"

definition failingRun :: "event list" where
  "failingRun =
     [PhaseReturns UrlImport None, PhaseReturns DirectUpload (Some uploadFailed),
      WatcherWakes, PhaseReturns ResumableUpload None, WaitReturns]"

text \<open>
  The same failure, seen right after it, and a run in which the resumable upload is
  interrupted by the cancellation that follows the failure and returns the error of its
  cancelled context.
\<close>

definition justFailed :: "event list" where
  "justFailed = [PhaseReturns UrlImport None, PhaseReturns DirectUpload (Some uploadFailed)]"

definition uploadInterrupted :: error where
  "uploadInterrupted = Wrapped ''error in resumable upload task'' Canceled"

definition interruptedRun :: "event list" where
  "interruptedRun =
     [PhaseReturns DirectUpload (Some uploadFailed), WatcherWakes,
      PhaseReturns ResumableUpload (Some uploadInterrupted), PhaseReturns UrlImport None,
      WaitReturns]"

definition passingRun :: "event list" where
  "passingRun =
     [PhaseReturns DirectUpload None, PhaseReturns ResumableUpload None,
      PhaseReturns UrlImport None, WaitReturns]"

definition afterwards :: "event list" where
  "afterwards = [WatcherWakes, LifetimeCancelled]"

section \<open>Properties of the distance\<close>

subsection \<open>Bounds on pi\<close>

text \<open>
  From \<open>sin (pi/6) = 1/2\<close> and the cubic Maclaurin estimate of the sine, refined a few
  times.
\<close>

lemma sum_below_5: "(\<Sum>m<5. g m) = g 0 + g 1 + g 2 + g 3 + g 4" for g :: "nat \<Rightarrow> real"
proof -
  have "{..<5::nat} = {0, 1, 2, 3, 4}" by auto
  then show ?thesis by simp
qed

lemma sin_coeff_values:
  "sin_coeff 0 = 0" "sin_coeff (Suc 0) = 1" "sin_coeff 2 = 0" "sin_coeff 3 = - (1 / 6)"
  "sin_coeff 4 = 0"
proof -
  show "sin_coeff 0 = 0" "sin_coeff (Suc 0) = 1" "sin_coeff 2 = 0" "sin_coeff 4 = 0"
    by (simp_all add: sin_coeff_def)
  have "fact 3 = (6::real)" by (simp add: fact_numeral)
  then show "sin_coeff 3 = - (1 / 6)"
    by (simp add: sin_coeff_def)
qed

lemma sin_cubic:
  "\<bar>sin x - (x - x ^ 3 / 6)\<bar> \<le> \<bar>x\<bar> ^ 5 / 120" for x :: real
proof -
  have a: "(\<Sum>m<5. sin_coeff m * x ^ m) = x - x ^ 3 / 6"
    by (simp add: sum_below_5 sin_coeff_values)
  have f: "inverse (fact 5) * \<bar>x\<bar> ^ 5 = \<bar>x\<bar> ^ 5 / 120"
    by (simp add: fact_numeral)
  show ?thesis
    using Maclaurin_sin_bound [of x 5] unfolding a f .
qed

lemma pi_bounds: "3.12 < pi \<and> pi < 3.15"
proof -
  define t where "t = pi / 6"
  have s: "sin t = 1 / 2" unfolding t_def by (rule sin_30)
  have t0: "1 / 3 \<le> t" "t < 2 / 3"
    using pi_ge_two pi_less_4 by (simp_all add: t_def)
  have tpos: "0 \<le> t" using t0 by simp
  have b: "\<bar>1 / 2 - (t - t ^ 3 / 6)\<bar> \<le> t ^ 5 / 120"
    using sin_cubic [of t] s tpos by simp
  then have U: "t \<le> 1 / 2 + t ^ 3 / 6 + t ^ 5 / 120"
    and L: "1 / 2 + t ^ 3 / 6 - t ^ 5 / 120 \<le> t"
    by linarith+
  have u1: "t < 0.5505"
  proof -
    have "t ^ 3 < (2 / 3) ^ 3" "t ^ 5 < (2 / 3) ^ 5"
      using t0 tpos by (simp_all add: power_strict_mono)
    then show ?thesis using U by (simp add: power_divide) 
  qed
  have u2: "t < 0.5283"
  proof -
    have "t ^ 3 < 0.5505 ^ 3" "t ^ 5 < 0.5505 ^ 5"
      using u1 tpos by (simp_all add: power_strict_mono)
    then show ?thesis using U by (simp add: power_divide)
  qed
  have u3: "t < 0.525"
  proof -
    have "t ^ 3 < 0.5283 ^ 3" "t ^ 5 < 0.5283 ^ 5"
      using u2 tpos by (simp_all add: power_strict_mono)
    then show ?thesis using U by (simp add: power_divide)
  qed
  have l1: "0.505 < t"
  proof -
    have "(1 / 3) ^ 3 \<le> t ^ 3" "t ^ 5 < 0.525 ^ 5"
      using t0 u3 tpos by (simp_all add: power_mono power_strict_mono)
    then show ?thesis using L by (simp add: power_divide)
  qed
  have l2: "0.52 < t"
  proof -
    have "0.505 ^ 3 < t ^ 3" "t ^ 5 < 0.525 ^ 5"
      using l1 u3 tpos by (simp_all add: power_strict_mono)
    then show ?thesis using L by (simp add: power_divide)
  qed
  show ?thesis using l2 u3 by (simp add: t_def)
qed

subsection \<open>Results within the range of float64\<close>

lemma MaxFloat64_large: "1000000 \<le> MaxFloat64"
proof -
  have "(2::real) ^ 20 \<le> 2 ^ 1023" by (rule power_increasing) simp_all
  moreover have "(1::real) \<le> 2 - 1 / 2 ^ 52" by simp
  ultimately have "(2::real) ^ 20 * 1 \<le> 2 ^ 1023 * (2 - 1 / 2 ^ 52)"
    by (intro mult_mono) simp_all
  then show ?thesis by (simp add: MaxFloat64_def)
qed

lemma MaxFloat64_less: "MaxFloat64 < 2 ^ 1023 * 2"
  by (simp add: MaxFloat64_def)

lemma fl_Fin: "\<bar>x\<bar> \<le> MaxFloat64 \<Longrightarrow> fl x = Fin x"
  by (simp add: fl_def)

lemma fl_small: "\<bar>x\<bar> \<le> 1000000 \<Longrightarrow> fl x = Fin x"
  using MaxFloat64_large by (simp add: fl_def)

lemma fl_NaN: "MaxFloat64 < \<bar>x\<bar> \<Longrightarrow> fl x = NaN"
  by (simp add: fl_def)

lemma NaN_absorbs [simp]:
  "NaN + x = NaN" "x + NaN = NaN" "NaN - x = NaN" "x - NaN = NaN"
  "NaN * x = NaN" "x * NaN = NaN" "NaN / x = NaN" "x / NaN = NaN"
  "math_Atan2 NaN x = NaN" "math_Atan2 x NaN = NaN"
  by (cases x; simp)+

lemma unit_product: "\<bar>x\<bar> \<le> 1 \<Longrightarrow> \<bar>y\<bar> \<le> 1 \<Longrightarrow> \<bar>x * y\<bar> \<le> (1::real)"
  by (simp add: abs_mult mult_le_one)

lemma times_unit: "\<bar>x\<bar> \<le> 1 \<Longrightarrow> \<bar>y\<bar> \<le> 1 \<Longrightarrow> Fin x * Fin y = Fin (x * y)"
  using unit_product [of x y] by (simp add: fl_small)

lemma hav_terms:
  "Fin (sin u) * Fin (sin u) = Fin (sin u * sin u)"
  "Fin (cos x) * Fin (cos y) = Fin (cos x * cos y)"
  "Fin (cos x * cos y) * Fin (sin v) = Fin (cos x * cos y * sin v)"
  "Fin (cos x * cos y * sin v) * Fin (sin v) = Fin (cos x * cos y * sin v * sin v)"
proof -
  have c: "\<bar>cos x * cos y\<bar> \<le> 1" by (rule unit_product) simp_all
  then have d: "\<bar>cos x * cos y * sin v\<bar> \<le> 1" by (rule unit_product) simp
  show "Fin (sin u) * Fin (sin u) = Fin (sin u * sin u)"
    by (rule times_unit) simp_all
  show "Fin (cos x) * Fin (cos y) = Fin (cos x * cos y)"
    by (rule times_unit) simp_all
  show "Fin (cos x * cos y) * Fin (sin v) = Fin (cos x * cos y * sin v)"
    using c by (rule times_unit) simp
  show "Fin (cos x * cos y * sin v) * Fin (sin v) = Fin (cos x * cos y * sin v * sin v)"
    using d by (rule times_unit) simp
qed

lemma hav_a_bound:
  "\<bar>sin u * sin u + cos x * cos y * sin v * sin v\<bar> \<le> 2" for u x y v :: real
proof -
  have "\<bar>sin u * sin u\<bar> \<le> 1" by (rule unit_product) simp_all
  moreover have "\<bar>cos x * cos y * sin v * sin v\<bar> \<le> 1"
    by (intro unit_product) simp_all
  ultimately show ?thesis by linarith
qed

lemma hav_sum:
  "Fin (sin u * sin u) + Fin (cos x * cos y * sin v * sin v) =
   Fin (sin u * sin u + cos x * cos y * sin v * sin v)"
  using hav_a_bound [of u x y v] by (simp add: fl_small)

lemma atan2_bound: "\<bar>atan2 y x\<bar> \<le> 2 * pi"
proof -
  have "- (pi / 2) < arctan (y / x)" by (rule arctan_lbound)
  moreover have "arctan (y / x) < pi / 2" by (rule arctan_ubound)
  ultimately show ?thesis
    using pi_gt_zero by (auto simp: atan2_def abs_le_iff)
qed

lemma scale_angle: "earthRadius * (Fin 2 * Fin (atan2 y x)) = Fin (6371 * (2 * atan2 y x))"
proof -
  have b: "\<bar>atan2 y x\<bar> \<le> 8"
    using atan2_bound [of y x] pi_less_4 by linarith
  then have "\<bar>2 * atan2 y x\<bar> \<le> 1000000" by simp
  then have 1: "Fin 2 * Fin (atan2 y x) = Fin (2 * atan2 y x)" by (simp add: fl_small)
  have "\<bar>6371 * (2 * atan2 y x)\<bar> \<le> 1000000" using b by simp
  then show ?thesis by (simp add: 1 earthRadius_def fl_small)
qed

text \<open>Degrees to radians: in range, or an overflow of the product with \<open>pi\<close>.\<close>

lemma radians_Fin:
  assumes "\<bar>p * pi\<bar> \<le> MaxFloat64"
  shows "Fin p * math_Pi / Fin 180 = Fin (p * pi / 180)"
proof -
  have "\<bar>p * pi / 180\<bar> \<le> \<bar>p * pi\<bar>" by simp
  then have "\<bar>p * pi / 180\<bar> \<le> MaxFloat64" using assms by linarith
  then show ?thesis using assms by (simp add: math_Pi_def fl_def)
qed

lemma radians_NaN:
  assumes "MaxFloat64 < \<bar>p * pi\<bar>"
  shows "Fin p * math_Pi / Fin 180 = NaN"
  using assms by (simp add: math_Pi_def fl_def)

lemma radians_bound:
  assumes "\<bar>p * pi\<bar> \<le> MaxFloat64"
  shows "\<bar>p * pi / 180\<bar> \<le> MaxFloat64 / 180"
  using assms by simp

lemma ordinary_in_range: "\<bar>p\<bar> \<le> 1000 \<Longrightarrow> \<bar>p * pi\<bar> \<le> MaxFloat64"
proof -
  assume "\<bar>p\<bar> \<le> 1000"
  then have "\<bar>p\<bar> * pi \<le> 1000 * 4"
    using pi_less_4 pi_gt_zero by (intro mult_mono) simp_all
  then show ?thesis using MaxFloat64_large by (simp add: abs_mult)
qed

subsection \<open>What getDistance computes\<close>

lemma getDistance_Fin:
  assumes r: "\<bar>p1 * pi\<bar> \<le> MaxFloat64" "\<bar>q1 * pi\<bar> \<le> MaxFloat64"
    "\<bar>p2 * pi\<bar> \<le> MaxFloat64" "\<bar>q2 * pi\<bar> \<le> MaxFloat64"
  shows "getDistance (Fin p1) (Fin q1) (Fin p2) (Fin q2) =
     (let lat1 = p1 * pi / 180; lon1 = q1 * pi / 180;
          lat2 = p2 * pi / 180; lon2 = q2 * pi / 180;
          a = sin (lat2 - lat1) * sin (lat2 - lat1) +
              cos lat1 * cos lat2 * sin (lon2 - lon1) * sin (lon2 - lon1)
      in if a < 0 \<or> 1 < a then NaN
         else Fin (6371 * (2 * atan2 (sqrt a) (sqrt (1 - a)))))"
proof -
  define lat1 lon1 lat2 lon2 where "lat1 = p1 * pi / 180" and "lon1 = q1 * pi / 180"
    and "lat2 = p2 * pi / 180" and "lon2 = q2 * pi / 180"
  define a where "a = sin (lat2 - lat1) * sin (lat2 - lat1) +
      cos lat1 * cos lat2 * sin (lon2 - lon1) * sin (lon2 - lon1)"
  have rad: "Fin p1 * math_Pi / Fin 180 = Fin lat1" "Fin q1 * math_Pi / Fin 180 = Fin lon1"
    "Fin p2 * math_Pi / Fin 180 = Fin lat2" "Fin q2 * math_Pi / Fin 180 = Fin lon2"
    using r by (simp_all add: radians_Fin lat1_def lon1_def lat2_def lon2_def)
  have b: "\<bar>lat1\<bar> \<le> MaxFloat64 / 180" "\<bar>lon1\<bar> \<le> MaxFloat64 / 180"
    "\<bar>lat2\<bar> \<le> MaxFloat64 / 180" "\<bar>lon2\<bar> \<le> MaxFloat64 / 180"
    using r radians_bound unfolding lat1_def lon1_def lat2_def lon2_def by blast+
  have pos: "0 \<le> MaxFloat64" using MaxFloat64_large by simp
  have "\<bar>lat2 - lat1\<bar> \<le> MaxFloat64" "\<bar>lon2 - lon1\<bar> \<le> MaxFloat64"
    using b pos by linarith+
  then have diff: "Fin lat2 - Fin lat1 = Fin (lat2 - lat1)" "Fin lon2 - Fin lon1 = Fin (lon2 - lon1)"
    by (simp_all add: fl_def)
  have A: "math_Sin (Fin lat2 - Fin lat1) * math_Sin (Fin lat2 - Fin lat1) +
           math_Cos (Fin lat1) * math_Cos (Fin lat2) *
             math_Sin (Fin lon2 - Fin lon1) * math_Sin (Fin lon2 - Fin lon1) = Fin a"
    unfolding diff math_Sin.simps math_Cos.simps hav_terms hav_sum a_def ..
  have one: "Fin 1 - Fin a = Fin (1 - a)"
  proof -
    have "\<bar>a\<bar> \<le> 2" unfolding a_def by (rule hav_a_bound)
    then have "\<bar>1 - a\<bar> \<le> 1000000" by linarith
    then show ?thesis by (simp add: fl_small)
  qed
  have "getDistance (Fin p1) (Fin q1) (Fin p2) (Fin q2) =
        earthRadius * (Fin 2 * math_Atan2 (math_Sqrt (Fin a)) (math_Sqrt (Fin 1 - Fin a)))"
    unfolding getDistance_def Let_def rad A ..
  also have "\<dots> = (if a < 0 \<or> 1 < a then NaN
                   else Fin (6371 * (2 * atan2 (sqrt a) (sqrt (1 - a)))))"
  proof (cases "a < 0 \<or> 1 < a")
    case True
    then have "math_Sqrt (Fin a) = NaN \<or> math_Sqrt (Fin (1 - a)) = NaN" by auto
    then show ?thesis using True unfolding one by auto
  next
    case False
    then have "math_Sqrt (Fin a) = Fin (sqrt a)" "math_Sqrt (Fin (1 - a)) = Fin (sqrt (1 - a))"
      by simp_all
    then have "earthRadius * (Fin 2 * math_Atan2 (math_Sqrt (Fin a)) (math_Sqrt (Fin 1 - Fin a))) =
               earthRadius * (Fin 2 * Fin (atan2 (sqrt a) (sqrt (1 - a))))"
      unfolding one by simp
    then show ?thesis using False by (simp only: scale_angle if_False)
  qed
  finally show ?thesis
    by (simp add: Let_def a_def lat1_def lon1_def lat2_def lon2_def)
qed

lemma atan2_sin_cos:
  assumes "0 < x" "x < pi / 2"
  shows "atan2 (sqrt (sin x * sin x)) (sqrt (1 - sin x * sin x)) = x"
proof -
  have s: "0 < sin x" using assms by (simp add: sin_gt_zero)
  have c: "0 < cos x" using assms by (simp add: cos_gt_zero)
  have "1 - sin x * sin x = cos x * cos x"
    using sin_cos_squared_add [of x] by (simp add: power2_eq_square)
  then have e: "sqrt (1 - sin x * sin x) = cos x" using c by simp
  have f: "sqrt (sin x * sin x) = sin x" using s by simp
  have "arctan (sin x / cos x) = x"
    using arctan_tan [of x] assms by (simp add: tan_def)
  then show ?thesis using c s by (simp add: atan2_def e f)
qed

lemma sin_square_le_one: "sin x * sin x \<le> (1::real)"
proof -
  have "0 \<le> cos x * cos x" by simp
  moreover have "sin x * sin x + cos x * cos x = 1"
    using sin_cos_squared_add [of x] by (simp add: power2_eq_square)
  ultimately show ?thesis by linarith
qed

text \<open>
  Along a meridian or along the equator the function returns the radius times twice the
  angle between the points, for an angle below a right angle.
\<close>

lemma getDistance_along_meridian:
  assumes "0 < p" "p < 90"
  shows "getDistance (Fin 0) (Fin 0) (Fin p) (Fin 0) = Fin (6371 * (2 * (p * pi / 180)))"
proof -
  have b: "0 < p * pi / 180" "p * pi / 180 < pi / 2"
    using assms pi_gt_zero by simp_all
  have r: "\<bar>p * pi\<bar> \<le> MaxFloat64" "\<bar>0 * pi\<bar> \<le> MaxFloat64"
  proof -
    have "\<bar>p\<bar> \<le> 1000" using assms by simp
    then show "\<bar>p * pi\<bar> \<le> MaxFloat64" by (rule ordinary_in_range)
    show "\<bar>0 * pi\<bar> \<le> MaxFloat64" by (rule ordinary_in_range) simp
  qed
  show ?thesis
    using sin_square_le_one [of "p * pi / 180"] atan2_sin_cos [OF b]
    by (simp add: getDistance_Fin [OF r(2) r(2) r(1) r(2)] Let_def not_less mult.commute)
qed

lemma getDistance_equator_degree:
  "getDistance (Fin 0) (Fin 0) (Fin 1) (Fin 0) = Fin (6371 * (2 * (pi / 180)))"
  using getDistance_along_meridian [of 1] by simp

lemma getDistance_self:
  assumes "\<bar>p * pi\<bar> \<le> MaxFloat64" "\<bar>q * pi\<bar> \<le> MaxFloat64"
  shows "getDistance (Fin p) (Fin q) (Fin p) (Fin q) = Fin 0"
  by (simp add: getDistance_Fin [OF assms assms] atan2_def)

lemma getDistance_overflow:
  assumes "MaxFloat64 < \<bar>p * pi\<bar> \<or> MaxFloat64 < \<bar>q * pi\<bar>"
  shows "getDistance (Fin p) (Fin q) lat2 lon2 = NaN"
    and "getDistance lat1 lon1 (Fin p) (Fin q) = NaN"
proof -
  have n: "Fin p * math_Pi / Fin 180 = NaN \<or> Fin q * math_Pi / Fin 180 = NaN"
    using assms radians_NaN by blast
  show "getDistance (Fin p) (Fin q) lat2 lon2 = NaN"
    using n by (auto simp: getDistance_def Let_def)
  show "getDistance lat1 lon1 (Fin p) (Fin q) = NaN"
    using n by (auto simp: getDistance_def Let_def)
qed

lemma getDistance_NaN [simp]:
  "getDistance NaN lon1 lat2 lon2 = NaN"
  "getDistance lat1 NaN lat2 lon2 = NaN"
  "getDistance lat1 lon1 NaN lon2 = NaN"
  "getDistance lat1 lon1 lat2 NaN = NaN"
  by (simp_all add: getDistance_def Let_def)

lemma cos_quarter_square: "cos (pi / 4) * cos (pi / 4) = 1 / 2"
  by (simp add: cos_45)

lemma getDistance_quarter_turn:
  "getDistance (Fin (- 45)) (Fin 0) (Fin (- 45)) (Fin 90) = Fin (6371 * (2 * (pi / 4)))"
proof -
  have p: "0 < sqrt (1 / 2)" by simp
  have q: "sqrt (1 / 2) / sqrt (1 / 2) = 1" by simp
  have at: "atan2 (sqrt (1 / 2)) (sqrt (1 / 2)) = pi / 4"
    unfolding atan2_def using p q arctan_one by simp
  have r: "\<bar>- 45 * pi\<bar> \<le> MaxFloat64" "\<bar>0 * pi\<bar> \<le> MaxFloat64" "\<bar>90 * pi\<bar> \<le> MaxFloat64"
    by (rule ordinary_in_range, simp)+
  show ?thesis
    by (simp add: getDistance_Fin [OF r(1) r(2) r(1) r(3)] cos_quarter_square Let_def at)
qed

text \<open>
  From \<open>(-45, 0)\<close> to \<open>(45, 90)\<close> the quantity \<open>a\<close> is \<open>1 + 1/2\<close>, the root of
  \<open>1 - a\<close> is not a number, and neither is the distance.
\<close>

lemma getDistance_undefined:
  "getDistance (Fin (- 45)) (Fin 0) (Fin 45) (Fin 90) = NaN"
proof -
  have s: "sin (45 * pi / 180 + 45 * pi / 180) = 1"
  proof -
    have "45 * pi / 180 + 45 * pi / 180 = pi / 2" by simp
    then show ?thesis by (simp only: sin_pi_half)
  qed
  have r: "\<bar>- 45 * pi\<bar> \<le> MaxFloat64" "\<bar>0 * pi\<bar> \<le> MaxFloat64" "\<bar>45 * pi\<bar> \<le> MaxFloat64"
    "\<bar>90 * pi\<bar> \<le> MaxFloat64"
    by (rule ordinary_in_range, simp)+
  show ?thesis
    by (simp add: getDistance_Fin [OF r(1) r(2) r(3) r(4)] cos_quarter_square s)
qed

subsection \<open>Symmetry\<close>

lemma float64_times_commute: "x * y = y * x" for x y :: float64
  by (cases x; cases y) (simp_all add: mult.commute)

lemma sin_swap_real: "sin (b - a) = - sin (a - b)" for a b :: real
proof -
  have "b - a = - (a - b)" by simp
  then show ?thesis by (simp only: sin_minus)
qed

lemma difference_swap:
  "(x - y = NaN \<and> y - x = NaN) \<or> (\<exists>d. x - y = Fin d \<and> y - x = Fin (- d))" for x y :: float64
proof (cases x)
  case NaN
  then show ?thesis by simp
next
  case (Fin a)
  note x = this
  show ?thesis
  proof (cases y)
    case NaN
    then show ?thesis by simp
  next
    case (Fin b)
    have "\<bar>b - a\<bar> = \<bar>a - b\<bar>" by (rule abs_minus_commute)
    then show ?thesis using x Fin by (simp add: fl_def)
  qed
qed

lemma sin_square_swap:
  "math_Sin (x - y) * math_Sin (x - y) = math_Sin (y - x) * math_Sin (y - x)" for x y :: float64
  using difference_swap [of x y] by auto

lemma sin_product_swap:
  "c * math_Sin (x - y) * math_Sin (x - y) = c * math_Sin (y - x) * math_Sin (y - x)"
  for c x y :: float64
proof -
  have "c * Fin (sin d) * Fin (sin d) = c * Fin (- sin d) * Fin (- sin d)" for d
    by (cases c) (simp_all add: fl_def)
  then show ?thesis using difference_swap [of x y] by auto
qed

lemma getDistance_commute: "getDistance lat1 lon1 lat2 lon2 = getDistance lat2 lon2 lat1 lon1"
proof -
  define L1 O1 L2 O2 where "L1 = lat1 * math_Pi / Fin 180" and "O1 = lon1 * math_Pi / Fin 180"
    and "L2 = lat2 * math_Pi / Fin 180" and "O2 = lon2 * math_Pi / Fin 180"
  have 1: "math_Sin (L2 - L1) * math_Sin (L2 - L1) = math_Sin (L1 - L2) * math_Sin (L1 - L2)"
    by (rule sin_square_swap)
  have 2: "math_Cos L1 * math_Cos L2 = math_Cos L2 * math_Cos L1"
    by (rule float64_times_commute)
  have 3: "math_Cos L2 * math_Cos L1 * math_Sin (O2 - O1) * math_Sin (O2 - O1) =
           math_Cos L2 * math_Cos L1 * math_Sin (O1 - O2) * math_Sin (O1 - O2)"
    by (rule sin_product_swap)
  show ?thesis
    unfolding getDistance_def Let_def L1_def [symmetric] O1_def [symmetric]
      L2_def [symmetric] O2_def [symmetric] 1 2 3 ..
qed

subsection \<open>Coordinates beyond the range of float64\<close>

lemma huge_times_pi: "MaxFloat64 < \<bar>10 ^ 308 * pi\<bar>"
proof -
  have "(2::real) ^ 1023 * 2 \<le> 10 ^ 308 * 3" by simp
  moreover have "(10::real) ^ 308 * 3 \<le> 10 ^ 308 * pi"
    using pi_bounds by (intro mult_left_mono) simp_all
  ultimately show ?thesis using MaxFloat64_less pi_gt_zero by (simp add: abs_mult)
qed

lemma valid_coordinates_in_range:
  "\<bar>p\<bar> \<le> 90 \<and> \<bar>q\<bar> \<le> 180 \<Longrightarrow> \<bar>p * pi\<bar> \<le> MaxFloat64 \<and> \<bar>q * pi\<bar> \<le> MaxFloat64"
  by (simp add: ordinary_in_range)

lemma getDistance_same_point:
  "getDistance (Fin p) (Fin q) (Fin p) (Fin q) =
     (if \<bar>p * pi\<bar> \<le> MaxFloat64 \<and> \<bar>q * pi\<bar> \<le> MaxFloat64 then Fin 0 else NaN)"
proof (cases "\<bar>p * pi\<bar> \<le> MaxFloat64 \<and> \<bar>q * pi\<bar> \<le> MaxFloat64")
  case True
  then show ?thesis by (simp add: getDistance_self)
next
  case False
  then have "MaxFloat64 < \<bar>p * pi\<bar> \<or> MaxFloat64 < \<bar>q * pi\<bar>" by auto
  then have "getDistance (Fin p) (Fin q) (Fin p) (Fin q) = NaN" by (rule getDistance_overflow)
  then show ?thesis using False by simp
qed

subsection \<open>The claims about the distance\<close>

text \<open>
  C1.  The claim says that \<^verbatim>\<open>getDistance\<close> is the haversine distance and that one
  degree of latitude at the equator comes out at about 111 km.  The haversine formula of
  the specification does give a value within 1% of 111 km there.  The function computes
  something else: the sines are taken of the full differences, not of their halves.  From
  \<open>(0, 0)\<close> to \<open>(1, 0)\<close> it returns exactly twice the haversine value, between 220
  and 223 km.  For points far apart the quantity \<open>a\<close> exceeds 1, which it cannot in
  the haversine formula, and the result is NaN: so from \<open>(-45, 0)\<close> to \<open>(45, 90)\<close>.
\<close>

theorem getDistance_one_degree_latitude:
  "getDistance (Fin 0) (Fin 0) (Fin 1) (Fin 0) = Fin (2 * haversine 0 0 1 0) \<and>
   haversine 0 0 1 0 = 6371 * (pi / 180) \<and>
   111 * (1 - 1 / 100) < haversine 0 0 1 0 \<and> haversine 0 0 1 0 < 111 * (1 + 1 / 100) \<and>
   220 < 2 * haversine 0 0 1 0 \<and> 2 * haversine 0 0 1 0 < 223 \<and>
   getDistance (Fin (- 45)) (Fin 0) (Fin 45) (Fin 90) = NaN"
proof -
  have h: "0 < pi / 360" "pi / 360 < pi / 2"
    using pi_gt_zero by simp_all
  have spec: "haversine 0 0 1 0 = 6371 * (pi / 180)"
    using atan2_sin_cos [OF h]
    by (simp add: haversine_def haversine_a_def Let_def power2_eq_square)
  have code: "getDistance (Fin 0) (Fin 0) (Fin 1) (Fin 0) = Fin (2 * haversine 0 0 1 0)"
    using getDistance_equator_degree by (simp add: spec)
  have near: "111 * (1 - 1 / 100) < 6371 * (pi / 180)" "6371 * (pi / 180) < 111 * (1 + 1 / 100)"
    using pi_bounds by simp_all
  have far: "220 < 2 * (6371 * (pi / 180))" "2 * (6371 * (pi / 180)) < 223"
    using pi_bounds by simp_all
  show ?thesis
    using code spec near far getDistance_undefined by simp
qed

text \<open>
  C7, as amended.  The distance from a point to itself is zero for every point whose
  coordinates are numbers that the conversion to radians keeps within the range of
  \<^verbatim>\<open>float64\<close> (the product of the coordinate with \<open>pi\<close> does not overflow), so in
  particular for every latitude between -90 and 90 and longitude between -180 and 180.  For
  a point with a larger coordinate, or with a coordinate that is NaN, the distance from the
  point to itself is NaN.  The distance is symmetric in its two points for all arguments:
  both orders give the same number, or both give NaN.
\<close>

theorem getDistance_self_zero_and_symmetric:
  "getDistance (Fin p) (Fin q) (Fin p) (Fin q) =
     (if \<bar>p * pi\<bar> \<le> MaxFloat64 \<and> \<bar>q * pi\<bar> \<le> MaxFloat64 then Fin 0 else NaN) \<and>
   (\<bar>p\<bar> \<le> 90 \<and> \<bar>q\<bar> \<le> 180 \<longrightarrow> getDistance (Fin p) (Fin q) (Fin p) (Fin q) = Fin 0) \<and>
   getDistance NaN lon1 NaN lon1 = NaN \<and> getDistance lat1 NaN lat1 NaN = NaN \<and>
   getDistance lat1 lon1 lat2 lon2 = getDistance lat2 lon2 lat1 lon1"
proof (intro conjI impI)
  show "getDistance (Fin p) (Fin q) (Fin p) (Fin q) =
     (if \<bar>p * pi\<bar> \<le> MaxFloat64 \<and> \<bar>q * pi\<bar> \<le> MaxFloat64 then Fin 0 else NaN)"
    by (rule getDistance_same_point)
  show "getDistance (Fin p) (Fin q) (Fin p) (Fin q) = Fin 0" if "\<bar>p\<bar> \<le> 90 \<and> \<bar>q\<bar> \<le> 180"
    using valid_coordinates_in_range [OF that] by (simp add: getDistance_self)
  show "getDistance NaN lon1 NaN lon1 = NaN" "getDistance lat1 NaN lat1 NaN = NaN"
    by simp_all
  show "getDistance lat1 lon1 lat2 lon2 = getDistance lat2 lon2 lat1 lon1"
    by (rule getDistance_commute)
qed

text \<open>
  The claim as first stated, zero for every point, fails outside that domain: the point
  with latitude \<open>10\<^sup>3\<^sup>0\<^sup>8\<close> and the point with latitude NaN are both at distance NaN from
  themselves.
\<close>

theorem getDistance_self_counterexample:
  "getDistance (Fin (10 ^ 308)) (Fin 0) (Fin (10 ^ 308)) (Fin 0) = NaN \<and>
   getDistance NaN (Fin 0) NaN (Fin 0) = NaN \<and>
   getDistance (Fin (10 ^ 308)) (Fin 0) (Fin (10 ^ 308)) (Fin 0) \<noteq> Fin 0"
proof -
  have "getDistance (Fin (10 ^ 308)) (Fin 0) (Fin (10 ^ 308)) (Fin 0) = NaN"
    using huge_times_pi by (simp add: getDistance_same_point)
  then show ?thesis by simp
qed

theorem getDistance_self_zero_and_symmetric_witness:
  "getDistance (Fin 52) (Fin 13) (Fin 52) (Fin 13) = Fin 0 \<and>
   getDistance (Fin 0) (Fin 0) (Fin 1) (Fin 0) = getDistance (Fin 1) (Fin 0) (Fin 0) (Fin 0)"
  using getDistance_self_zero_and_symmetric [of 52 13 "Fin 0" "Fin 0" "Fin 1" "Fin 0"]
    ordinary_in_range [of 52] ordinary_in_range [of 13]
  by simp

section \<open>Properties of the selection\<close>


subsection \<open>findInSlice\<close>

lemma findInSlice_from_absent:
  "(findInSlice_from i vs k = - 1) = (k \<notin> Key ` set vs)"
proof (induction vs arbitrary: i)
  case Nil
  show ?case by simp
next
  case (Cons v vs)
  show ?case using Cons.IH [of "Suc i"] by auto
qed

lemma findInSlice_from_found:
  "findInSlice_from i vs k \<noteq> - 1 \<Longrightarrow>
   \<exists>j < length vs. findInSlice_from i vs k = int (i + j) \<and> Key (vs ! j) = k"
proof (induction vs arbitrary: i)
  case Nil
  then show ?case by simp
next
  case (Cons v vs)
  show ?case
  proof (cases "Key v = k")
    case True
    then show ?thesis by (intro exI [of _ 0]) simp
  next
    case False
    with Cons.prems have "findInSlice_from (Suc i) vs k \<noteq> - 1" by simp
    from Cons.IH [OF this] obtain j where
      "j < length vs" "findInSlice_from (Suc i) vs k = int (Suc i + j)" "Key (vs ! j) = k"
      by blast
    with False show ?thesis by (intro exI [of _ "Suc j"]) simp
  qed
qed

lemma findInSlice_found:
  "findInSlice vs k \<noteq> - 1 \<Longrightarrow>
   \<exists>j < length vs. findInSlice vs k = int j \<and> Key (vs ! j) = k"
  using findInSlice_from_found [of 0 vs k] by (simp add: findInSlice_def)

lemma findInSlice_absent: "(findInSlice vs k = - 1) = (k \<notin> Key ` set vs)"
  by (simp add: findInSlice_def findInSlice_from_absent)

subsection \<open>Groups\<close>

lemma membersOf_append [simp]: "membersOf (xs @ ys) = membersOf xs @ membersOf ys"
  by (simp add: membersOf_def)

lemma membersOf_Cons [simp]: "membersOf (g # gs) = Nodes g @ membersOf gs"
  by (simp add: membersOf_def)

lemma membersOf_Nil [simp]: "membersOf [] = []"
  by (simp add: membersOf_def)

lemma mset_membersOf_update:
  assumes "j < length nd"
  shows "mset (membersOf (nd[j := (nd ! j)\<lparr>Nodes := Nodes (nd ! j) @ [m]\<rparr>])) =
         add_mset m (mset (membersOf nd))"
proof -
  have a: "nd = take j nd @ (nd ! j) # drop (Suc j) nd"
    using assms by (simp add: id_take_nth_drop)
  have b: "nd[j := (nd ! j)\<lparr>Nodes := Nodes (nd ! j) @ [m]\<rparr>] =
           take j nd @ (nd ! j)\<lparr>Nodes := Nodes (nd ! j) @ [m]\<rparr> # drop (Suc j) nd"
    using assms by (simp add: upd_conv_take_nth_drop)
  have "mset (membersOf nd) =
        mset (membersOf (take j nd)) + mset (Nodes (nd ! j)) + mset (membersOf (drop (Suc j) nd))"
    by (subst a) simp
  then show ?thesis by (simp add: b)
qed

lemma map_Key_update:
  "map Key (nd[j := (nd ! j)\<lparr>Nodes := ns\<rparr>]) = map Key nd"
proof -
  have "map Key (nd[j := (nd ! j)\<lparr>Nodes := ns\<rparr>]) = (map Key nd)[j := Key (nd ! j)]"
    by (simp add: map_update)
  also have "\<dots> = map Key (nd[j := nd ! j])"
    by (simp only: map_update)
  finally show ?thesis by simp
qed

lemma wellGrouped_update:
  assumes "wellGrouped nd" "j < length nd" "memberKey m = Key (nd ! j)"
  shows "wellGrouped (nd[j := (nd ! j)\<lparr>Nodes := Nodes (nd ! j) @ [m]\<rparr>])"
proof -
  have "\<forall>g \<in> set (nd[j := (nd ! j)\<lparr>Nodes := Nodes (nd ! j) @ [m]\<rparr>]).
          \<forall>x \<in> set (Nodes g). memberKey x = Key g"
  proof
    fix g assume "g \<in> set (nd[j := (nd ! j)\<lparr>Nodes := Nodes (nd ! j) @ [m]\<rparr>])"
    then have "g = (nd ! j)\<lparr>Nodes := Nodes (nd ! j) @ [m]\<rparr> \<or> g \<in> set nd"
      using set_update_subset_insert by fastforce
    then show "\<forall>x \<in> set (Nodes g). memberKey x = Key g"
      using assms by (auto simp: wellGrouped_def)
  qed
  then show ?thesis
    using assms(1) by (simp add: wellGrouped_def map_Key_update)
qed

lemma addMember_ok:
  assumes "wellGrouped nd"
  shows "\<exists>nd'. addMember pf lat long nd m = Inr nd' \<and> wellGrouped nd' \<and>
           mset (membersOf nd') = add_mset m (mset (membersOf nd))"
proof (cases "findInSlice nd (memberKey m) = - 1")
  case True
  then have new: "memberKey m \<notin> Key ` set nd" by (simp add: findInSlice_absent)
  obtain x2 y2 where loc: "getMemberLocation m = (x2, y2)" by (cases "getMemberLocation m")
  have key: "memberKey m = locationKey x2 y2" by (simp add: memberKey_def loc)
  have "wellGrouped (nd @ [\<lparr>Key = locationKey x2 y2, Latitude = fst (pf x2),
          Longitude = fst (pf y2), Distance = getDistance lat long (fst (pf x2)) (fst (pf y2)),
          Nodes = [m]\<rparr>])"
    using assms new key by (auto simp: wellGrouped_def)
  then show ?thesis
    using True by (simp add: addMember_def loc key [symmetric] Let_def)
next
  case False
  from findInSlice_found [OF this] obtain j where
    j: "j < length nd" "findInSlice nd (memberKey m) = int j" "Key (nd ! j) = memberKey m"
    by blast
  obtain x2 y2 where loc: "getMemberLocation m = (x2, y2)" by (cases "getMemberLocation m")
  have key: "memberKey m = locationKey x2 y2" by (simp add: memberKey_def loc)
  have "addMember pf lat long nd m = Inr (nd[j := (nd ! j)\<lparr>Nodes := Nodes (nd ! j) @ [m]\<rparr>])"
    using j by (simp add: addMember_def loc key [symmetric] Let_def)
  then show ?thesis
    using wellGrouped_update [OF assms j(1)] mset_membersOf_update [OF j(1)] j(3) by simp
qed

lemma groupMembers_ok:
  "wellGrouped nd \<Longrightarrow>
   \<exists>nd'. groupMembers pf lat long nd ms = Inr nd' \<and> wellGrouped nd' \<and>
     mset (membersOf nd') = mset ms + mset (membersOf nd)"
proof (induction ms arbitrary: nd)
  case Nil
  then show ?case by simp
next
  case (Cons m ms)
  from addMember_ok [OF Cons.prems] obtain nd1 where
    1: "addMember pf lat long nd m = Inr nd1" "wellGrouped nd1"
       "mset (membersOf nd1) = add_mset m (mset (membersOf nd))" by blast
  from Cons.IH [OF 1(2)] obtain nd2 where
    2: "groupMembers pf lat long nd1 ms = Inr nd2" "wellGrouped nd2"
       "mset (membersOf nd2) = mset ms + mset (membersOf nd1)" by blast
  show ?case using 1 2 by simp
qed

subsection \<open>Sorting\<close>

lemma mset_insertLess: "mset (insertLess f x ps) = add_mset x (mset ps)"
  by (induction ps) simp_all

lemma mset_insertionSort_from: "mset (insertionSort_from f front xs) = mset front + mset xs"
  by (induction xs arbitrary: front) (simp_all add: mset_insertLess)

lemma mset_insertionSort_func: "mset (insertionSort_func f xs) = mset xs"
  by (simp add: insertionSort_func_def mset_insertionSort_from)

text \<open>
  Whatever the library does to a slice of more than twelve elements, it does by swapping
  elements: the result is a permutation of the input.  This is what the theorems below
  assume of the parameter.
\<close>

lemma mset_sort_Slice:
  "\<forall>xs. 12 < length xs \<longrightarrow> mset (p f xs) = mset xs \<Longrightarrow> mset (sort_Slice p f xs) = mset xs"
  by (simp add: sort_Slice_def mset_insertionSort_func)

lemma mset_membersOf: "mset (membersOf gs) = sum_mset (image_mset (\<lambda>g. mset (Nodes g)) (mset gs))"
  by (induction gs) simp_all

lemma mset_membersOf_cong: "mset gs = mset gs' \<Longrightarrow> mset (membersOf gs) = mset (membersOf gs')"
  by (simp add: mset_membersOf)

subsection \<open>Collecting\<close>

text \<open>
  The second loop returns the members of the first \<open>n\<close> groups.  If it stopped before
  the last group, at least \<open>k\<close> members were collected; and before it took the last
  group that it did take, fewer than \<open>k\<close> had been collected.
\<close>

lemma collectNodes_prefix:
  "\<exists>n \<le> length gs.
     collectNodes k ret gs = ret @ membersOf (take n gs) \<and>
     (n < length gs \<longrightarrow> k \<le> int (length (collectNodes k ret gs))) \<and>
     (0 < n \<longrightarrow> int (length (ret @ membersOf (take (n - 1) gs))) < k)"
proof (induction gs arbitrary: ret)
  case Nil
  show ?case by simp
next
  case (Cons g gs)
  show ?case
  proof (cases "int (length ret) < k")
    case True
    from Cons.IH [of "ret @ Nodes g"] obtain n where
      n: "n \<le> length gs"
         "collectNodes k (ret @ Nodes g) gs = (ret @ Nodes g) @ membersOf (take n gs)"
         "n < length gs \<longrightarrow> k \<le> int (length (collectNodes k (ret @ Nodes g) gs))"
         "0 < n \<longrightarrow> int (length ((ret @ Nodes g) @ membersOf (take (n - 1) gs))) < k"
      by blast
    have last: "int (length (ret @ membersOf (take (Suc n - 1) (g # gs)))) < k"
    proof (cases n)
      case 0
      then show ?thesis using True by simp
    next
      case (Suc n')
      then show ?thesis using n(4) by simp
    qed
    show ?thesis
      using True n(1,2,3) last by (intro exI [of _ "Suc n"]) simp
  next
    case False
    then show ?thesis by (intro exI [of _ 0]) simp
  qed
qed

lemma length_membersOf_take: "length (membersOf (take n gs)) \<le> length (membersOf gs)"
proof -
  have "membersOf gs = membersOf (take n gs) @ membersOf (drop n gs)"
    by (metis append_take_drop_id membersOf_append)
  then show ?thesis by simp
qed

lemma mset_membersOf_take: "mset (membersOf (take n gs)) \<subseteq># mset (membersOf gs)"
proof -
  have "membersOf gs = membersOf (take n gs) @ membersOf (drop n gs)"
    by (metis append_take_drop_id membersOf_append)
  then have "mset (membersOf gs) = mset (membersOf (take n gs)) + mset (membersOf (drop n gs))"
    by simp
  then show ?thesis by simp
qed

lemma set_membersOf: "set (membersOf gs) = (\<Union>g \<in> set gs. set (Nodes g))"
  by (simp add: membersOf_def)

subsection \<open>Distances of the groups\<close>

lemma find_append_first:
  "find P (xs @ ys) = (case find P xs of None \<Rightarrow> find P ys | Some x \<Rightarrow> Some x)"
  by (induction xs) simp_all

lemma key_of_processed:
  assumes "wellGrouped nd" "mset (membersOf nd) = mset processed" "x \<in> set processed"
  shows "memberKey x \<in> Key ` set nd"
proof -
  have "x \<in> set (membersOf nd)" using assms(2,3) by (metis set_mset_mset)
  then obtain g where "g \<in> set nd" "x \<in> set (Nodes g)"
    by (auto simp: membersOf_def)
  then show ?thesis using assms(1) by (force simp: wellGrouped_def)
qed

lemma addMember_located:
  assumes wg: "wellGrouped nd" and ms: "mset (membersOf nd) = mset processed"
    and loc: "located pf lat long processed nd"
    and step: "addMember pf lat long nd m = Inr nd'"
  shows "located pf lat long (processed @ [m]) nd'"
proof -
  obtain x2 y2 where l: "getMemberLocation m = (x2, y2)" by (cases "getMemberLocation m")
  have key: "memberKey m = locationKey x2 y2" by (simp add: memberKey_def l)
  have old: "\<exists>m'. find (\<lambda>x. memberKey x = Key g) (processed @ [m]) = Some m' \<and>
               Distance g = pointDistance pf lat long m'" if "g \<in> set nd" for g
  proof -
    from loc that obtain m' where
      "find (\<lambda>x. memberKey x = Key g) processed = Some m'" "Distance g = pointDistance pf lat long m'"
      by (auto simp: located_def)
    then show ?thesis by (simp add: find_append_first)
  qed
  show ?thesis
  proof (cases "findInSlice nd (memberKey m) = - 1")
    case True
    then have new: "memberKey m \<notin> Key ` set nd" by (simp add: findInSlice_absent)
    have "\<not> (\<exists>x. x \<in> set processed \<and> memberKey x = memberKey m)"
      using key_of_processed [OF wg ms] new by metis
    then have none: "find (\<lambda>x. memberKey x = memberKey m) processed = None"
      by (simp add: find_None_iff)
    have nd': "nd' = nd @ [\<lparr>Key = memberKey m, Latitude = fst (pf x2), Longitude = fst (pf y2),
         Distance = getDistance lat long (fst (pf x2)) (fst (pf y2)), Nodes = [m]\<rparr>]"
      using step True by (simp add: addMember_def l key [symmetric] Let_def)
    have "find (\<lambda>x. memberKey x = memberKey m) (processed @ [m]) = Some m"
      by (simp add: find_append_first none)
    moreover have "getDistance lat long (fst (pf x2)) (fst (pf y2)) = pointDistance pf lat long m"
      by (simp add: pointDistance_def l)
    ultimately show ?thesis
      using old by (auto simp: located_def nd')
  next
    case False
    from findInSlice_found [OF this] obtain j where
      j: "j < length nd" "findInSlice nd (memberKey m) = int j" "Key (nd ! j) = memberKey m"
      by blast
    have nd': "nd' = nd[j := (nd ! j)\<lparr>Nodes := Nodes (nd ! j) @ [m]\<rparr>]"
      using step j by (simp add: addMember_def l key [symmetric] Let_def)
    show ?thesis
      unfolding located_def
    proof
      fix g assume "g \<in> set nd'"
      then have "g = (nd ! j)\<lparr>Nodes := Nodes (nd ! j) @ [m]\<rparr> \<or> g \<in> set nd"
        unfolding nd' using set_update_subset_insert by fastforce
      then obtain g0 where "g0 \<in> set nd" "Key g = Key g0" "Distance g = Distance g0"
        using j(1) by (metis nth_mem geolocateSerfNodes.select_convs(1,4)
            geolocateSerfNodes.surjective geolocateSerfNodes.update_convs(5))
      then show "\<exists>m'. find (\<lambda>x. memberKey x = Key g) (processed @ [m]) = Some m' \<and>
                   Distance g = pointDistance pf lat long m'"
        using old [of g0] by simp
    qed
  qed
qed

lemma addMember_whole:
  assumes wg: "wellGrouped nd" and ms: "mset (membersOf nd) = mset processed"
    and whole: "wholeGroups processed nd"
    and step: "addMember pf lat long nd m = Inr nd'"
  shows "wholeGroups (processed @ [m]) nd'"
proof -
  obtain x2 y2 where l: "getMemberLocation m = (x2, y2)" by (cases "getMemberLocation m")
  have key: "memberKey m = locationKey x2 y2" by (simp add: memberKey_def l)
  have other: "Nodes g \<noteq> [] \<and> Nodes g = filter (\<lambda>x. memberKey x = Key g) (processed @ [m])"
    if "g \<in> set nd" "Key g \<noteq> memberKey m" for g
    using whole that by (auto simp: wholeGroups_def)
  show ?thesis
  proof (cases "findInSlice nd (memberKey m) = - 1")
    case True
    then have new: "memberKey m \<notin> Key ` set nd" by (simp add: findInSlice_absent)
    have "\<not> (\<exists>x. x \<in> set processed \<and> memberKey x = memberKey m)"
      using key_of_processed [OF wg ms] new by metis
    then have none: "filter (\<lambda>x. memberKey x = memberKey m) processed = []"
      by (simp add: filter_empty_conv)
    have nd': "nd' = nd @ [\<lparr>Key = memberKey m, Latitude = fst (pf x2), Longitude = fst (pf y2),
         Distance = getDistance lat long (fst (pf x2)) (fst (pf y2)), Nodes = [m]\<rparr>]"
      using step True by (simp add: addMember_def l key [symmetric] Let_def)
    have "Key g \<noteq> memberKey m" if "g \<in> set nd" for g
      using new that by (metis imageI)
    then have olds: "\<forall>g \<in> set nd.
        Nodes g \<noteq> [] \<and> Nodes g = filter (\<lambda>x. memberKey x = Key g) (processed @ [m])"
      using other by blast
    let ?new = "\<lparr>Key = memberKey m, Latitude = fst (pf x2), Longitude = fst (pf y2),
         Distance = getDistance lat long (fst (pf x2)) (fst (pf y2)), Nodes = [m]\<rparr>"
    have added: "Nodes ?new \<noteq> [] \<and>
        Nodes ?new = filter (\<lambda>x. memberKey x = Key ?new) (processed @ [m])"
      using none by simp
    show ?thesis
      unfolding wholeGroups_def nd'
    proof
      fix g assume "g \<in> set (nd @ [?new])"
      then consider "g \<in> set nd" | "g = ?new" by auto
      then show "Nodes g \<noteq> [] \<and> Nodes g = filter (\<lambda>x. memberKey x = Key g) (processed @ [m])"
      proof cases
        case 1
        then show ?thesis using olds by blast
      next
        case 2
        then show ?thesis using added by blast
      qed
    qed
  next
    case False
    from findInSlice_found [OF this] obtain j where
      j: "j < length nd" "findInSlice nd (memberKey m) = int j" "Key (nd ! j) = memberKey m"
      by blast
    let ?g = "(nd ! j)\<lparr>Nodes := Nodes (nd ! j) @ [m]\<rparr>"
    have nd': "nd' = nd[j := ?g]"
      using step j by (simp add: addMember_def l key [symmetric] Let_def)
    have inj: "inj_on Key (set nd)" and dist: "distinct nd"
      using wg by (simp_all add: wellGrouped_def distinct_map)
    have set': "set nd' = insert ?g (set nd - {nd ! j})"
      unfolding nd' using dist j(1) by (rule set_update_distinct)
    have old: "Nodes (nd ! j) = filter (\<lambda>x. memberKey x = memberKey m) processed"
      using whole j(1,3) by (auto simp: wholeGroups_def)
    have grown: "Nodes ?g \<noteq> [] \<and> Nodes ?g = filter (\<lambda>x. memberKey x = Key ?g) (processed @ [m])"
      using old j(3) by simp
    have rest: "Nodes g \<noteq> [] \<and> Nodes g = filter (\<lambda>x. memberKey x = Key g) (processed @ [m])"
      if "g \<in> set nd - {nd ! j}" for g
    proof -
      have "g \<in> set nd" "g \<noteq> nd ! j" using that by simp_all
      moreover have "nd ! j \<in> set nd" using j(1) by simp
      ultimately have "Key g \<noteq> Key (nd ! j)" using inj by (metis inj_on_eq_iff)
      then have "Key g \<noteq> memberKey m" using j(3) by simp
      then show ?thesis using other \<open>g \<in> set nd\<close> by blast
    qed
    show ?thesis
      unfolding wholeGroups_def set' using grown rest by blast
  qed
qed

lemma groupMembers_groupsFor:
  "groupsFor pf lat long processed nd \<Longrightarrow>
   \<exists>nd'. groupMembers pf lat long nd ms = Inr nd' \<and> groupsFor pf lat long (processed @ ms) nd'"
proof (induction ms arbitrary: nd processed)
  case Nil
  then show ?case by simp
next
  case (Cons m ms)
  then have wg: "wellGrouped nd" and mm: "mset (membersOf nd) = mset processed"
    and loc: "located pf lat long processed nd" and whole: "wholeGroups processed nd"
    by (simp_all add: groupsFor_def)
  from addMember_ok [OF wg, of pf lat long m] obtain nd1 where
    1: "addMember pf lat long nd m = Inr nd1" "wellGrouped nd1"
       "mset (membersOf nd1) = add_mset m (mset (membersOf nd))" by blast
  have "groupsFor pf lat long (processed @ [m]) nd1"
    using 1 mm addMember_located [OF wg mm loc 1(1)] addMember_whole [OF wg mm whole 1(1)]
    by (simp add: groupsFor_def)
  from Cons.IH [OF this] obtain nd2 where
    "groupMembers pf lat long nd1 ms = Inr nd2" "groupsFor pf lat long ((processed @ [m]) @ ms) nd2"
    by blast
  then show ?case using 1(1) by simp
qed

lemma groupMembers_total:
  "\<exists>nd. groupMembers pf lat long [] ms = Inr nd \<and> groupsFor pf lat long ms nd"
  using groupMembers_groupsFor [of pf lat long "[]" "[]" ms]
  by (simp add: groupsFor_def wellGrouped_def located_def wholeGroups_def)




subsection \<open>Structure of the result\<close>

lemma getClosestSerfNodes_collects:
  assumes "groupMembers pf lat long [] ms = Inr nd"
  shows "getClosestSerfNodes p pf ms k lat long =
         Inr (collectNodes k [] (sort_Slice p byDistance nd))"
proof (cases "ms = []")
  case True
  then show ?thesis
    using assms by (simp add: getClosestSerfNodes_def sort_Slice_def insertionSort_func_def)
next
  case False
  then show ?thesis using assms by (simp add: getClosestSerfNodes_def)
qed


lemma getClosestSerfNodes_structure:
  assumes perm: "\<forall>xs. 12 < length xs \<longrightarrow> mset (p byDistance xs) = mset xs"
  shows "\<exists>nd S n. groupsFor pf lat long ms nd \<and> mset S = mset nd \<and> n \<le> length S \<and>
      getClosestSerfNodes p pf ms k lat long = Inr (membersOf (take n S)) \<and>
      (n < length S \<longrightarrow> k \<le> int (length (membersOf (take n S)))) \<and>
      (0 < n \<longrightarrow> int (length (membersOf (take (n - 1) S))) < k)"
proof -
  from groupMembers_total [of pf lat long ms] obtain nd where
    nd: "groupMembers pf lat long [] ms = Inr nd" "groupsFor pf lat long ms nd" by blast
  let ?S = "sort_Slice p byDistance nd"
  have S: "mset ?S = mset nd" using perm by (rule mset_sort_Slice)
  from collectNodes_prefix [of ?S k "[]"] obtain n where
    n: "n \<le> length ?S"
       "collectNodes k [] ?S = membersOf (take n ?S)"
       "n < length ?S \<longrightarrow> k \<le> int (length (collectNodes k [] ?S))"
       "0 < n \<longrightarrow> int (length (membersOf (take (n - 1) ?S))) < k"
    by auto
  have res: "getClosestSerfNodes p pf ms k lat long = Inr (membersOf (take n ?S))"
    using getClosestSerfNodes_collects [OF nd(1)] n(2) by simp
  show ?thesis
    using nd(2) S n res by (intro exI [of _ nd] exI [of _ ?S] exI [of _ n]) simp
qed

text \<open>
  C3.  The selection always returns a list, made of given members.  When at least \<open>k\<close>
  members exist it returns at least \<open>k\<close> of them; when fewer than \<open>k\<close> exist it
  returns all of them, each as often as it was given; for no members it returns the empty
  list.  It goes over \<open>k\<close> by the last group only: the result is either empty (nothing
  was asked for, or nothing was given), or it ends with all the members of one location
  key, in front of which there are fewer than \<open>k\<close> members.  Of the library's sorting
  algorithm for more than twelve groups only that it permutes the groups is assumed.
\<close>

theorem getClosestSerfNodes_count:
  assumes "\<forall>xs. 12 < length xs \<longrightarrow> mset (pdqsort_func byDistance xs) = mset xs"
  shows "\<exists>r. getClosestSerfNodes pdqsort_func pf ms k lat long = Inr r \<and>
     mset r \<subseteq># mset ms \<and>
     (k \<le> int (length ms) \<longrightarrow> k \<le> int (length r)) \<and>
     (int (length ms) < k \<longrightarrow> mset r = mset ms) \<and>
     (ms = [] \<longrightarrow> r = []) \<and>
     ((r = [] \<and> (k \<le> 0 \<or> ms = [])) \<or>
      (\<exists>front key. r = front @ filter (\<lambda>m. memberKey m = key) ms \<and>
         int (length front) < k \<and> key \<in> memberKey ` set ms))"
proof -
  from getClosestSerfNodes_structure [of pdqsort_func pf lat long ms k] assms
  obtain nd S n where
    s: "groupsFor pf lat long ms nd" "mset S = mset nd" "n \<le> length S"
       "getClosestSerfNodes pdqsort_func pf ms k lat long = Inr (membersOf (take n S))"
       "n < length S \<longrightarrow> k \<le> int (length (membersOf (take n S)))"
       "0 < n \<longrightarrow> int (length (membersOf (take (n - 1) S))) < k"
    by blast
  let ?r = "membersOf (take n S)"
  have gf: "mset (membersOf nd) = mset ms" "wholeGroups ms nd"
    using s(1) by (simp_all add: groupsFor_def)
  have all: "mset (membersOf S) = mset ms"
    using mset_membersOf_cong [OF s(2)] gf(1) by simp
  then have total: "length (membersOf S) = length ms" by (metis size_mset)
  have whole: "n = length S \<Longrightarrow> ?r = membersOf S" by simp
  have sub: "mset ?r \<subseteq># mset ms"
    using mset_membersOf_take [of n S] all by simp
  have a: "k \<le> int (length ms) \<longrightarrow> k \<le> int (length ?r)"
  proof (cases "n < length S")
    case True
    then show ?thesis using s(5) by simp
  next
    case False
    then have "n = length S" using s(3) by simp
    then show ?thesis using whole total by simp
  qed
  have b: "int (length ms) < k \<longrightarrow> mset ?r = mset ms"
  proof
    assume less: "int (length ms) < k"
    have "length ?r \<le> length ms"
      using length_membersOf_take [of n S] total by simp
    then have "\<not> k \<le> int (length ?r)" using less by simp
    then have "n = length S" using s(3,5) by force
    then show "mset ?r = mset ms" using whole all by simp
  qed
  have c: "ms = [] \<longrightarrow> ?r = []"
  proof
    assume "ms = []"
    then have "mset (membersOf S) = {#}" using all by simp
    then have "membersOf S = []" by simp
    then have "length ?r \<le> 0" using length_membersOf_take [of n S] by simp
    then show "?r = []" by simp
  qed
  have d: "(?r = [] \<and> (k \<le> 0 \<or> ms = [])) \<or>
      (\<exists>front key. ?r = front @ filter (\<lambda>m. memberKey m = key) ms \<and>
         int (length front) < k \<and> key \<in> memberKey ` set ms)"
  proof (cases n)
    case 0
    have "k \<le> 0 \<or> ms = []"
    proof (cases "n < length S")
      case True
      then show ?thesis using s(5) 0 by simp
    next
      case False
      then have "S = []" using 0 by simp
      then have "membersOf S = []" by simp
      then have "mset ms = {#}" using all by simp
      then show ?thesis by simp
    qed
    then show ?thesis using 0 by simp
  next
    case (Suc n')
    then have n': "n' < length S" using s(3) by simp
    let ?g = "S ! n'"
    have "?g \<in> set S" using n' by simp
    then have "?g \<in> set nd" using s(2) by (metis set_mset_mset)
    then have g: "Nodes ?g \<noteq> []" "Nodes ?g = filter (\<lambda>m. memberKey m = Key ?g) ms"
      using gf(2) unfolding wholeGroups_def by blast+
    have "take n S = take n' S @ [?g]"
      using Suc n' by (simp add: take_Suc_conv_app_nth)
    then have r: "?r = membersOf (take n' S) @ filter (\<lambda>m. memberKey m = Key ?g) ms"
      using g(2) by simp
    have front: "int (length (membersOf (take n' S))) < k" using s(6) Suc by simp
    have "filter (\<lambda>m. memberKey m = Key ?g) ms \<noteq> []" using g by simp
    then have "\<exists>m \<in> set ms. memberKey m = Key ?g" by (simp add: filter_empty_conv)
    then have "Key ?g \<in> memberKey ` set ms" by force
    then show ?thesis using r front by blast
  qed
  show ?thesis using s(4) sub a b c d by blast
qed

text \<open>
  Members with the same location key are all returned or all left out, in every case.
\<close>

lemma getClosestSerfNodes_groups_whole:
  assumes "\<forall>xs. 12 < length xs \<longrightarrow> mset (p byDistance xs) = mset xs"
  shows "\<exists>r. getClosestSerfNodes p pf ms k lat long = Inr r \<and>
     (\<forall>a \<in> set ms. \<forall>b \<in> set ms. memberKey a = memberKey b \<longrightarrow> (a \<in> set r) = (b \<in> set r))"
proof -
  from getClosestSerfNodes_structure [of p pf lat long ms k] assms
  obtain nd S n where
    s: "groupsFor pf lat long ms nd" "mset S = mset nd"
       "getClosestSerfNodes p pf ms k lat long = Inr (membersOf (take n S))"
    by blast
  let ?r = "membersOf (take n S)"
  have gf: "wellGrouped nd" "mset (membersOf nd) = mset ms"
    using s(1) by (simp_all add: groupsFor_def)
  have "set S = set nd" using s(2) by (metis set_mset_mset)
  then have sub: "set (take n S) \<subseteq> set nd"
    using set_take_subset [of n S] by simp
  have oneway: "b \<in> set ?r"
    if "a \<in> set ms" "b \<in> set ms" "memberKey a = memberKey b" "a \<in> set ?r" for a b
  proof -
    from that(4) obtain g where g: "g \<in> set (take n S)" "a \<in> set (Nodes g)"
      by (auto simp: set_membersOf)
    then have gn: "g \<in> set nd" using sub by auto
    have "b \<in> set (membersOf nd)" using gf(2) that(2) by (metis set_mset_mset)
    then obtain h where h: "h \<in> set nd" "b \<in> set (Nodes h)"
      by (auto simp: set_membersOf)
    have "Key g = memberKey a" "Key h = memberKey b"
      using gf(1) gn g(2) h by (simp_all add: wellGrouped_def)
    moreover have "inj_on Key (set nd)"
      using gf(1) by (simp add: wellGrouped_def distinct_map)
    ultimately have "h = g" using that(3) gn h(1) by (metis inj_on_eq_iff)
    then show ?thesis using g(1) h(2) by (auto simp: set_membersOf)
  qed
  have "\<forall>a \<in> set ms. \<forall>b \<in> set ms. memberKey a = memberKey b \<longrightarrow> (a \<in> set ?r) = (b \<in> set ?r)"
    using oneway by metis
  then show ?thesis using s(3) by blast
qed


subsection \<open>The examples, evaluated\<close>

lemma getMemberLocation_memberAt: "getMemberLocation (memberAt n x y) = (x, y)"
  by (simp add: getMemberLocation_def memberAt_def tag_def)


lemma parse_number:
  "signed_value s = Some v \<Longrightarrow> \<bar>v\<bar> \<le> 1000000 \<Longrightarrow> strconv_ParseFloat s = (Fin v, False)"
  using MaxFloat64_large by (simp add: strconv_ParseFloat_def)

lemma parse_examples:
  "strconv_ParseFloat ''0'' = (Fin 0, False)"
  "strconv_ParseFloat ''1'' = (Fin 1, False)"
  "strconv_ParseFloat ''2'' = (Fin 2, False)"
  "strconv_ParseFloat ''45'' = (Fin 45, False)"
  "strconv_ParseFloat ''90'' = (Fin 90, False)"
  "strconv_ParseFloat ''179'' = (Fin 179, False)"
  "strconv_ParseFloat ''-45'' = (Fin (- 45), False)"
  by (rule parse_number; simp add: signed_value_def unsigned_value_def digit_of_def)+

lemma parse_malformed:
  "strconv_ParseFloat ''abc'' = (Fin 0, True)"
  "strconv_ParseFloat ''xyz'' = (Fin 0, True)"
  by (simp_all add: strconv_ParseFloat_def signed_value_def unsigned_value_def digit_of_def)

lemma getDistance_origin: "getDistance (Fin 0) (Fin 0) (Fin 0) (Fin 0) = Fin 0"
  by (rule getDistance_self; rule ordinary_in_range; simp)

lemma getDistance_home: "getDistance (Fin (- 45)) (Fin 0) (Fin (- 45)) (Fin 0) = Fin 0"
  by (rule getDistance_self; rule ordinary_in_range; simp)

lemma getDistance_two_degrees:
  "getDistance (Fin 0) (Fin 0) (Fin 2) (Fin 0) = Fin (6371 * (2 * (2 * pi / 180)))"
  using getDistance_along_meridian [of 2] by simp

text \<open>
  Along the equator to longitude 179: the sine of the difference is the sine of one degree,
  and the function returns the same value as for one degree.
\<close>

lemma getDistance_far_side:
  "getDistance (Fin 0) (Fin 0) (Fin 0) (Fin 179) = Fin (6371 * (2 * (pi / 180)))"
proof -
  have "179 * pi / 180 = pi - pi / 180" by simp
  then have s: "sin (179 * pi / 180) = sin (pi / 180)" by (simp only: sin_pi_minus)
  have b: "0 < pi / 180" "pi / 180 < pi / 2" using pi_gt_zero by simp_all
  have r: "\<bar>0 * pi\<bar> \<le> MaxFloat64" "\<bar>179 * pi\<bar> \<le> MaxFloat64"
    by (rule ordinary_in_range, simp)+
  have "getDistance (Fin 0) (Fin 0) (Fin 0) (Fin 179) =
        (let a = sin (179 * pi / 180) * sin (179 * pi / 180)
         in if a < 0 \<or> 1 < a then NaN
            else Fin (6371 * (2 * atan2 (sqrt a) (sqrt (1 - a)))))"
    by (simp add: getDistance_Fin [OF r(1) r(1) r(1) r(2)] Let_def)
  also have "\<dots> = Fin (6371 * (2 * (pi / 180)))"
  proof -
    have at: "atan2 (sqrt (sin (pi / 180) * sin (pi / 180)))
        (sqrt (1 - sin (pi / 180) * sin (pi / 180))) = pi / 180"
      by (rule atan2_sin_cos [OF b])
    have n1: "\<not> sin (pi / 180) * sin (pi / 180) < 0" by (simp add: not_less)
    have n2: "\<not> 1 < sin (pi / 180) * sin (pi / 180)"
      using sin_square_le_one [of "pi / 180"] by (simp only: not_less)
    show ?thesis unfolding s Let_def by (simp only: n1 n2 at simp_thms if_False)
  qed
  finally show ?thesis .
qed


text \<open>The great-circle distances of the specification's formula for the same points.\<close>

lemma haversine_two_degrees: "haversine 0 0 2 0 = 6371 * (2 * pi / 180)"
proof -
  have h: "0 < pi / 180" "pi / 180 < pi / 2" using pi_gt_zero by simp_all
  show ?thesis
    using atan2_sin_cos [OF h]
    by (simp add: haversine_def haversine_a_def Let_def power2_eq_square)
qed

lemma haversine_far_side: "haversine 0 0 0 179 = 6371 * (179 * pi / 180)"
proof -
  have h: "0 < 179 * pi / 360" "179 * pi / 360 < pi / 2" using pi_gt_zero by simp_all
  show ?thesis
    using atan2_sin_cos [OF h]
    by (simp add: haversine_def haversine_a_def Let_def power2_eq_square)
qed


lemma groups_at_origin:
  "groupMembers strconv_ParseFloat (Fin 0) (Fin 0) [] [near, broken, twin] =
     Inr [\<lparr>Key = ''1-0'', Latitude = Fin 1, Longitude = Fin 0,
            Distance = Fin (6371 * (2 * (pi / 180))), Nodes = [near, twin]\<rparr>,
          \<lparr>Key = ''abc-xyz'', Latitude = Fin 0, Longitude = Fin 0,
            Distance = Fin 0, Nodes = [broken]\<rparr>]"
  using getDistance_equator_degree getDistance_origin
  by (simp add: addMember_def near_def twin_def broken_def getMemberLocation_memberAt
      locationKey_def findInSlice_def parse_examples parse_malformed Let_def)



lemma groups_far:
  "groupMembers strconv_ParseFloat (Fin 0) (Fin 0) [] [nearby, farAway] =
     Inr [\<lparr>Key = ''2-0'', Latitude = Fin 2, Longitude = Fin 0,
            Distance = Fin (6371 * (2 * (2 * pi / 180))), Nodes = [nearby]\<rparr>,
          \<lparr>Key = ''0-179'', Latitude = Fin 0, Longitude = Fin 179,
            Distance = Fin (6371 * (2 * (pi / 180))), Nodes = [farAway]\<rparr>]"
  using getDistance_two_degrees getDistance_far_side
  by (simp add: addMember_def nearby_def farAway_def getMemberLocation_memberAt
      locationKey_def findInSlice_def parse_examples Let_def)

lemma groups_at_home:
  "groupMembers strconv_ParseFloat (Fin (- 45)) (Fin 0) [] [southEast, northEast, home] =
     Inr [\<lparr>Key = ''-45-90'', Latitude = Fin (- 45), Longitude = Fin 90,
            Distance = Fin (6371 * (2 * (pi / 4))), Nodes = [southEast]\<rparr>,
          \<lparr>Key = ''45-90'', Latitude = Fin 45, Longitude = Fin 90,
            Distance = NaN, Nodes = [northEast]\<rparr>,
          \<lparr>Key = ''-45-0'', Latitude = Fin (- 45), Longitude = Fin 0,
            Distance = Fin 0, Nodes = [home]\<rparr>]"
  using getDistance_quarter_turn getDistance_undefined getDistance_home
  by (simp add: addMember_def southEast_def northEast_def home_def getMemberLocation_memberAt
      locationKey_def findInSlice_def parse_examples Let_def)

lemma select_at_origin:
  "getClosestSerfNodes p strconv_ParseFloat [near, broken, twin] 1 (Fin 0) (Fin 0) = Inr [broken]"
  "getClosestSerfNodes p strconv_ParseFloat [near, broken, twin] 2 (Fin 0) (Fin 0) =
     Inr [broken, near, twin]"
  "getClosestSerfNodes p strconv_ParseFloat [near, broken, twin] 5 (Fin 0) (Fin 0) =
     Inr [broken, near, twin]"
  by (simp_all add: getClosestSerfNodes_def groups_at_origin sort_Slice_def
      insertionSort_func_def byDistance_def del: groupMembers.simps)


lemma select_far:
  "getClosestSerfNodes p strconv_ParseFloat [nearby, farAway] 1 (Fin 0) (Fin 0) = Inr [farAway]"
  "getClosestSerfNodes p strconv_ParseFloat [nearby, farAway] 2 (Fin 0) (Fin 0) =
     Inr [farAway, nearby]"
  using pi_gt_zero
  by (simp_all add: getClosestSerfNodes_def groups_far sort_Slice_def
      insertionSort_func_def byDistance_def del: groupMembers.simps)

lemma select_at_home:
  "getClosestSerfNodes p strconv_ParseFloat [southEast, northEast, home] 3 (Fin (- 45)) (Fin 0) =
     Inr [southEast, northEast, home]"
  "getClosestSerfNodes p strconv_ParseFloat [southEast, northEast, home] 1 (Fin (- 45)) (Fin 0) =
     Inr [southEast]"
  by (simp_all add: getClosestSerfNodes_def groups_at_home sort_Slice_def
      insertionSort_func_def byDistance_def del: groupMembers.simps)



text \<open>
  Witness of C3, with the insertion sort in the place of the library's algorithm for long
  slices: two members at one place and count 2 (three are returned, the last two being the
  whole group of the key \<^verbatim>\<open>1-0\<close>), count 5 (all are returned), and the empty list.
\<close>

theorem getClosestSerfNodes_count_witness:
  "(\<forall>xs. mset (insertionSort_func byDistance xs) = mset xs) \<and>
   (2 \<le> int (length [near, broken, twin]) \<and>
    getClosestSerfNodes insertionSort_func strconv_ParseFloat [near, broken, twin] 2 (Fin 0) (Fin 0) =
      Inr [broken, near, twin] \<and>
    2 \<le> int (length [broken, near, twin]) \<and>
    mset [broken, near, twin] \<subseteq># mset [near, broken, twin] \<and>
    (\<exists>front key. [broken, near, twin] =
         front @ filter (\<lambda>m. memberKey m = key) [near, broken, twin] \<and>
       int (length front) < 2 \<and> key \<in> memberKey ` set [near, broken, twin])) \<and>
   (int (length [near, broken, twin]) < 5 \<and>
    getClosestSerfNodes insertionSort_func strconv_ParseFloat [near, broken, twin] 5 (Fin 0) (Fin 0) =
      Inr [broken, near, twin] \<and>
    mset [broken, near, twin] = mset [near, broken, twin]) \<and>
   getClosestSerfNodes insertionSort_func strconv_ParseFloat [] 5 (Fin 0) (Fin 0) = Inr []"
proof -
  have all: "\<forall>xs. mset (insertionSort_func byDistance xs) = mset xs"
    by (simp add: mset_insertionSort_func)
  then have perm: "\<forall>xs. 12 < length xs \<longrightarrow> mset (insertionSort_func byDistance xs) = mset xs"
    by simp
  have a: "(2::int) \<le> int (length [near, broken, twin])" by simp
  have b: "int (length [near, broken, twin]) < 5" by simp
  have two: "getClosestSerfNodes insertionSort_func strconv_ParseFloat [near, broken, twin] 2
      (Fin 0) (Fin 0) = Inr [broken, near, twin]"
    by (rule select_at_origin)
  have five: "getClosestSerfNodes insertionSort_func strconv_ParseFloat [near, broken, twin] 5
      (Fin 0) (Fin 0) = Inr [broken, near, twin]"
    by (rule select_at_origin)
  from getClosestSerfNodes_count
    [of insertionSort_func strconv_ParseFloat "[near, broken, twin]" 2 "Fin 0" "Fin 0"] perm a
  have 1: "2 \<le> int (length [broken, near, twin]) \<and>
      mset [broken, near, twin] \<subseteq># mset [near, broken, twin] \<and>
      (\<exists>front key. [broken, near, twin] =
           front @ filter (\<lambda>m. memberKey m = key) [near, broken, twin] \<and>
         int (length front) < 2 \<and> key \<in> memberKey ` set [near, broken, twin])"
    unfolding two by auto
  from getClosestSerfNodes_count
    [of insertionSort_func strconv_ParseFloat "[near, broken, twin]" 5 "Fin 0" "Fin 0"] perm b
  have 2: "mset [broken, near, twin] = mset [near, broken, twin]"
    unfolding five by auto
  from getClosestSerfNodes_count
    [of insertionSort_func strconv_ParseFloat "[]" 5 "Fin 0" "Fin 0"] perm
  have 3: "getClosestSerfNodes insertionSort_func strconv_ParseFloat [] 5 (Fin 0) (Fin 0) = Inr []"
    by auto
  show ?thesis using all a b two five 1 2 3 by blast
qed

text \<open>
  C2.  The claim orders the returned members by their distance from the origin.  The
  selection orders them by what \<^verbatim>\<open>getDistance\<close> returns, and that is not the distance.
  Seen from \<open>(0, 0)\<close>, the node at \<open>(2, 0)\<close> is about 222 km away and the node at
  \<open>(0, 179)\<close> almost half way round the globe, 89 times as far; \<^verbatim>\<open>getDistance\<close>
  gives the first twice the value it gives the second, so that the far node is returned
  in front of the near one, and alone when one node is asked for.  Seen from
  \<open>(-45, 0)\<close>, the node a quarter of the way round the globe is returned in front of
  the node at the origin itself, because the node at \<open>(45, 90)\<close> between them has the
  distance NaN and the sort moves nothing across it.  Both lists are short, so the library
  sorts them by insertion, whatever it does to long slices.
\<close>

theorem getClosestSerfNodes_far_before_near:
  "getClosestSerfNodes pdqsort_func strconv_ParseFloat [nearby, farAway] 1 (Fin 0) (Fin 0) =
     Inr [farAway] \<and>
   getClosestSerfNodes pdqsort_func strconv_ParseFloat [nearby, farAway] 2 (Fin 0) (Fin 0) =
     Inr [farAway, nearby] \<and>
   getDistance (Fin 0) (Fin 0) (Fin 2) (Fin 0) = Fin (2 * haversine 0 0 2 0) \<and>
   getDistance (Fin 0) (Fin 0) (Fin 0) (Fin 179) = Fin (haversine 0 0 2 0) \<and>
   haversine 0 0 2 0 = 6371 * (2 * pi / 180) \<and>
   haversine 0 0 0 179 = 6371 * (179 * pi / 180) \<and>
   haversine 0 0 2 0 < haversine 0 0 0 179 \<and>
   getClosestSerfNodes pdqsort_func strconv_ParseFloat [southEast, northEast, home] 3
     (Fin (- 45)) (Fin 0) = Inr [southEast, northEast, home] \<and>
   getClosestSerfNodes pdqsort_func strconv_ParseFloat [southEast, northEast, home] 1
     (Fin (- 45)) (Fin 0) = Inr [southEast] \<and>
   getDistance (Fin (- 45)) (Fin 0) (Fin (- 45)) (Fin 90) = Fin (6371 * (2 * (pi / 4))) \<and>
   getDistance (Fin (- 45)) (Fin 0) (Fin 45) (Fin 90) = NaN \<and>
   getDistance (Fin (- 45)) (Fin 0) (Fin (- 45)) (Fin 0) = Fin 0"
proof -
  have "haversine 0 0 2 0 < haversine 0 0 0 179"
    using pi_gt_zero by (simp add: haversine_two_degrees haversine_far_side)
  moreover have "getDistance (Fin 0) (Fin 0) (Fin 2) (Fin 0) = Fin (2 * haversine 0 0 2 0)"
    by (simp add: getDistance_two_degrees haversine_two_degrees)
  moreover have "getDistance (Fin 0) (Fin 0) (Fin 0) (Fin 179) = Fin (haversine 0 0 2 0)"
    by (simp add: getDistance_far_side haversine_two_degrees)
  ultimately show ?thesis
    using select_far [of pdqsort_func] select_at_home [of pdqsort_func]
      haversine_two_degrees haversine_far_side
      getDistance_quarter_turn getDistance_undefined getDistance_home
    by (simp only: simp_thms)
qed



section \<open>Properties of the exit\<close>

text \<open>
  C8.  When the error handed to \<^verbatim>\<open>exit\<close> is \<^verbatim>\<open>context.Canceled\<close>, the process exits
  with code 0 whatever exit code was passed in, and nothing is reported: no error is
  printed and no failure is logged (the only possible effect is the removal of the
  downloaded file).
\<close>

theorem exit_on_cancellation:
  "snd (exit exitCode fn fa (Some Canceled)) = 0 \<and>
   filter isReport (fst (exit exitCode fn fa (Some Canceled))) = [] \<and>
   exit exitCode fn fa (Some Canceled) = (cleanup fn fa, 0)"
  by (simp add: exit_def cleanup_def)

section \<open>Properties of the playback check\<close>

lemma firstHLSUrl_none: "\<not> hasHLS srcs \<Longrightarrow> firstHLSUrl srcs = []"
  by (induction srcs) (auto simp: hasHLS_def)

lemma firstHLSUrl_some: "firstHLSUrl srcs \<noteq> [] \<Longrightarrow> hasHLS srcs"
  using firstHLSUrl_none by blast

lemma checkPlayback_no_duration:
  "GetAsset Lapi assetID = Inr asset \<Longrightarrow> DurationSec asset \<le> Fin 0 \<Longrightarrow>
   checkPlayback Lapi CheckStats assetID =
     Some (ErrorfFloat ''missing asset duration'' (DurationSec asset))"
  by (simp add: checkPlayback_def)

lemma checkPlayback_no_source:
  "GetAsset Lapi assetID = Inr asset \<Longrightarrow> \<not> DurationSec asset \<le> Fin 0 \<Longrightarrow>
   GetPlaybackInfo Lapi (PlaybackID asset) = Inr pinfo \<Longrightarrow> \<not> hasHLS (Source pinfo) \<Longrightarrow>
   checkPlayback Lapi CheckStats assetID = Some (Errorf ''no HLS source found in playback info'')"
  by (simp add: checkPlayback_def firstHLSUrl_none)

lemma checkPlayback_no_renditions:
  "GetAsset Lapi assetID = Inr asset \<Longrightarrow> \<not> DurationSec asset \<le> Fin 0 \<Longrightarrow>
   GetPlaybackInfo Lapi (PlaybackID asset) = Inr pinfo \<Longrightarrow>
   firstHLSUrl (Source pinfo) \<noteq> [] \<Longrightarrow>
   CheckStats (firstHLSUrl (Source pinfo)) (DurationSec asset * Fin 1000000000) = Inr stats \<Longrightarrow>
   length (SegmentsNum stats) \<le> 1 \<Longrightarrow>
   checkPlayback Lapi CheckStats assetID =
     Some (Errorf ''no transcoded renditions found in playlist'')"
  by (simp add: checkPlayback_def)

lemma checkPlayback_success:
  assumes "checkPlayback Lapi CheckStats assetID = None"
  shows "\<exists>asset pinfo stats.
           GetAsset Lapi assetID = Inr asset \<and> \<not> DurationSec asset \<le> Fin 0 \<and>
           GetPlaybackInfo Lapi (PlaybackID asset) = Inr pinfo \<and> hasHLS (Source pinfo) \<and>
           CheckStats (firstHLSUrl (Source pinfo)) (DurationSec asset * Fin 1000000000) = Inr stats \<and>
           1 < length (SegmentsNum stats)"
proof -
  from assms obtain asset where a: "GetAsset Lapi assetID = Inr asset"
    by (cases "GetAsset Lapi assetID") (simp_all add: checkPlayback_def)
  from assms a have d: "\<not> DurationSec asset \<le> Fin 0"
    by (auto simp: checkPlayback_def split: if_splits)
  from assms a d obtain pinfo where p: "GetPlaybackInfo Lapi (PlaybackID asset) = Inr pinfo"
    by (cases "GetPlaybackInfo Lapi (PlaybackID asset)") (simp_all add: checkPlayback_def)
  from assms a d p have u: "firstHLSUrl (Source pinfo) \<noteq> []"
    by (auto simp: checkPlayback_def Let_def split: if_splits)
  from assms a d p u obtain stats where
    s: "CheckStats (firstHLSUrl (Source pinfo)) (DurationSec asset * Fin 1000000000) = Inr stats"
    by (cases "CheckStats (firstHLSUrl (Source pinfo)) (DurationSec asset * Fin 1000000000)")
       (simp_all add: checkPlayback_def Let_def)
  from assms a d p u s have "1 < length (SegmentsNum stats)"
    by (auto simp: checkPlayback_def Let_def split: if_splits)
  then show ?thesis using a d p s firstHLSUrl_some [OF u] by blast
qed

text \<open>
  C6.  The checks are made in a fixed order and the first one that fails
  decides the error: a non-positive duration gives the missing-duration error; with the
  duration accepted and the playback description fetched, the absence of an HLS source
  gives the no-HLS-source error; with an HLS url found and the manifest statistics read,
  at most one rendition gives the no-renditions error.  No error is returned only when the
  duration is not non-positive, an HLS source is present and more than one rendition was
  seen.
\<close>

theorem checkPlayback_errors_in_order:
  "(GetAsset Lapi assetID = Inr asset \<and> DurationSec asset \<le> Fin 0 \<longrightarrow>
      checkPlayback Lapi CheckStats assetID =
        Some (ErrorfFloat ''missing asset duration'' (DurationSec asset))) \<and>
   (GetAsset Lapi assetID = Inr asset \<and> \<not> DurationSec asset \<le> Fin 0 \<and>
    GetPlaybackInfo Lapi (PlaybackID asset) = Inr pinfo \<and> \<not> hasHLS (Source pinfo) \<longrightarrow>
      checkPlayback Lapi CheckStats assetID =
        Some (Errorf ''no HLS source found in playback info'')) \<and>
   (GetAsset Lapi assetID = Inr asset \<and> \<not> DurationSec asset \<le> Fin 0 \<and>
    GetPlaybackInfo Lapi (PlaybackID asset) = Inr pinfo \<and> firstHLSUrl (Source pinfo) \<noteq> [] \<and>
    CheckStats (firstHLSUrl (Source pinfo)) (DurationSec asset * Fin 1000000000) = Inr stats \<and>
    length (SegmentsNum stats) \<le> 1 \<longrightarrow>
      checkPlayback Lapi CheckStats assetID =
        Some (Errorf ''no transcoded renditions found in playlist'')) \<and>
   (checkPlayback Lapi CheckStats assetID = None \<longrightarrow>
      (\<exists>asset pinfo stats.
         GetAsset Lapi assetID = Inr asset \<and> \<not> DurationSec asset \<le> Fin 0 \<and>
         GetPlaybackInfo Lapi (PlaybackID asset) = Inr pinfo \<and> hasHLS (Source pinfo) \<and>
         CheckStats (firstHLSUrl (Source pinfo)) (DurationSec asset * Fin 1000000000) = Inr stats \<and>
         1 < length (SegmentsNum stats)))"
  using checkPlayback_no_duration [of Lapi assetID asset CheckStats]
    checkPlayback_no_source [of Lapi assetID asset pinfo CheckStats]
    checkPlayback_no_renditions [of Lapi assetID asset pinfo CheckStats stats]
    checkPlayback_success [of Lapi CheckStats assetID]
  by blast

text \<open>
  Witness of C6: an asset without duration, an asset with an mp4 source only,
  a manifest with the source rendition only, and a manifest with two renditions.
\<close>

theorem checkPlayback_errors_in_order_witness:
  "DurationSec emptyAsset \<le> Fin 0 \<and>
   checkPlayback emptyClient noStats ''asset'' =
     Some (ErrorfFloat ''missing asset duration'' (DurationSec emptyAsset)) \<and>
   checkPlayback mp4Client noStats ''asset'' =
     Some (Errorf ''no HLS source found in playback info'') \<and>
   checkPlayback goodClient oneRendition ''asset'' =
     Some (Errorf ''no transcoded renditions found in playlist'') \<and>
   checkPlayback goodClient twoRenditions ''asset'' = None \<and>
   (\<exists>asset pinfo stats.
      GetAsset goodClient ''asset'' = Inr asset \<and> \<not> DurationSec asset \<le> Fin 0 \<and>
      GetPlaybackInfo goodClient (PlaybackID asset) = Inr pinfo \<and> hasHLS (Source pinfo) \<and>
      twoRenditions (firstHLSUrl (Source pinfo)) (DurationSec asset * Fin 1000000000) = Inr stats \<and>
      1 < length (SegmentsNum stats))"
proof -
  let ?mp4 = "\<lparr>Source = [\<lparr>Type = OtherSourceType ''mp4'', Url = ''https://cdn/video.mp4''\<rparr>]\<rparr>"
  let ?both = "\<lparr>Source = [\<lparr>Type = OtherSourceType ''mp4'', Url = ''https://cdn/video.mp4''\<rparr>,
                           \<lparr>Type = PlaybackInfoSourceTypeHLS, Url = ''https://cdn/index.m3u8''\<rparr>]\<rparr>"
  let ?asset = "\<lparr>ID = ''asset'', PlaybackID = ''playback'', DurationSec = Fin 120\<rparr>"
  have h1: "GetAsset emptyClient ''asset'' = Inr emptyAsset \<and> DurationSec emptyAsset \<le> Fin 0"
    by (simp add: emptyClient_def emptyAsset_def)
  have h2: "GetAsset mp4Client ''asset'' = Inr ?asset \<and> \<not> DurationSec ?asset \<le> Fin 0 \<and>
            GetPlaybackInfo mp4Client (PlaybackID ?asset) = Inr ?mp4 \<and> \<not> hasHLS (Source ?mp4)"
    by (simp add: mp4Client_def hasHLS_def)
  have h3: "GetAsset goodClient ''asset'' = Inr ?asset \<and> \<not> DurationSec ?asset \<le> Fin 0 \<and>
            GetPlaybackInfo goodClient (PlaybackID ?asset) = Inr ?both \<and>
            firstHLSUrl (Source ?both) \<noteq> [] \<and>
            oneRendition (firstHLSUrl (Source ?both)) (DurationSec ?asset * Fin 1000000000) =
              Inr \<lparr>SegmentsNum = [(''source'', 60)]\<rparr> \<and>
            length (SegmentsNum \<lparr>SegmentsNum = [(''source'', 60)]\<rparr>) \<le> 1"
    by (simp add: goodClient_def oneRendition_def)
  have h4: "checkPlayback goodClient twoRenditions ''asset'' = None"
    by (simp add: checkPlayback_def goodClient_def twoRenditions_def)
  have 1: "checkPlayback emptyClient noStats ''asset'' =
             Some (ErrorfFloat ''missing asset duration'' (DurationSec emptyAsset))"
    using checkPlayback_errors_in_order [of emptyClient "''asset''" emptyAsset noStats] h1
    by blast
  have 2: "checkPlayback mp4Client noStats ''asset'' =
             Some (Errorf ''no HLS source found in playback info'')"
    using checkPlayback_errors_in_order [of mp4Client "''asset''" ?asset noStats ?mp4] h2
    by blast
  have 3: "checkPlayback goodClient oneRendition ''asset'' =
             Some (Errorf ''no transcoded renditions found in playlist'')"
    using checkPlayback_errors_in_order
      [of goodClient "''asset''" ?asset oneRendition ?both "\<lparr>SegmentsNum = [(''source'', 60)]\<rparr>"] h3
    by blast
  have 4: "\<exists>asset pinfo stats.
      GetAsset goodClient ''asset'' = Inr asset \<and> \<not> DurationSec asset \<le> Fin 0 \<and>
      GetPlaybackInfo goodClient (PlaybackID asset) = Inr pinfo \<and> hasHLS (Source pinfo) \<and>
      twoRenditions (firstHLSUrl (Source pinfo)) (DurationSec asset * Fin 1000000000) = Inr stats \<and>
      1 < length (SegmentsNum stats)"
    using checkPlayback_errors_in_order [of goodClient "''asset''" _ twoRenditions] h4
    by blast
  show ?thesis using h1 1 2 3 h4 4 by blast
qed

section \<open>Properties of the url patch\<close>

lemma parse_upper_scheme:
  "url_Parse_plain ''HTTPS://origin.livepeer.com/upload'' =
     Inr \<lparr>Scheme = ''https'', Opaque = [], User = [], Host = ''origin.livepeer.com'',
          Path = ''/upload'', RawQuery = [], Fragment = []\<rparr>"
  by (simp add: url_Parse_plain_def isLetter_def isPlain_def toLower_def Let_def)

lemma parse_api_server:
  "url_Parse_plain ''https://livepeer.com'' =
     Inr \<lparr>Scheme = ''https'', Opaque = [], User = [], Host = ''livepeer.com'',
          Path = [], RawQuery = [], Fragment = []\<rparr>"
  by (simp add: url_Parse_plain_def isLetter_def isPlain_def toLower_def Let_def)

lemma parse_regional_server:
  "url_Parse_plain ''http://mdw.example.org'' =
     Inr \<lparr>Scheme = ''http'', Opaque = [], User = [], Host = ''mdw.example.org'',
          Path = [], RawQuery = [], Fragment = []\<rparr>"
  by (simp add: url_Parse_plain_def isLetter_def isPlain_def toLower_def Let_def)

lemma parse_not_a_url:
  "url_Parse_plain ''%zz'' = Inl (Errorf ''not a plain url'')"
  by (simp add: url_Parse_plain_def isLetter_def isPlain_def toLower_def Let_def)

lemma URL_patched:
  "targetURL\<lparr>Scheme := a, Host := b\<rparr> =
     \<lparr>Scheme = a, Opaque = Opaque targetURL, User = User targetURL, Host = b,
      Path = Path targetURL, RawQuery = RawQuery targetURL, Fragment = Fragment targetURL\<rparr>"
  by (cases targetURL) simp

text \<open>
  C9, as amended.  When either url fails to parse, the target text comes back as it is.
  When both parse and the target's host contains the source's host, the result is the
  parsed target written out again, no component changed.  Otherwise the result is the
  parsed target written out with the scheme and the host of the source and every other
  component as it was.
\<close>

theorem patchURLHost_cases:
  "(url_Parse target = Inl err \<longrightarrow> patchURLHost url_Parse URL_String target src = target) \<and>
   (url_Parse src = Inl err \<longrightarrow> patchURLHost url_Parse URL_String target src = target) \<and>
   (url_Parse target = Inr targetURL \<and> url_Parse src = Inr srcURL \<and>
    strings_Contains (Host targetURL) (Host srcURL) \<longrightarrow>
      patchURLHost url_Parse URL_String target src = URL_String targetURL) \<and>
   (url_Parse target = Inr targetURL \<and> url_Parse src = Inr srcURL \<and>
    \<not> strings_Contains (Host targetURL) (Host srcURL) \<longrightarrow>
      patchURLHost url_Parse URL_String target src =
        URL_String \<lparr>Scheme = Scheme srcURL, Opaque = Opaque targetURL, User = User targetURL,
                     Host = Host srcURL, Path = Path targetURL,
                     RawQuery = RawQuery targetURL, Fragment = Fragment targetURL\<rparr>)"
  by (cases "url_Parse target"; cases "url_Parse src")
     (auto simp: patchURLHost_def URL_patched)

text \<open>
  Counterexample to C9 as stated.  The target's host \<^verbatim>\<open>origin.livepeer.com\<close> contains
  the source's host \<^verbatim>\<open>livepeer.com\<close>, so nothing is patched; yet the result is not the
  target text, because the library stores the scheme in lower case and the result is
  printed from the parsed url.
\<close>

theorem patchURLHost_counterexample:
  "strings_Contains ''origin.livepeer.com'' ''livepeer.com'' \<and>
   patchURLHost url_Parse_plain URL_String_plain
     ''HTTPS://origin.livepeer.com/upload'' ''https://livepeer.com'' =
     ''https://origin.livepeer.com/upload'' \<and>
   patchURLHost url_Parse_plain URL_String_plain
     ''HTTPS://origin.livepeer.com/upload'' ''https://livepeer.com'' \<noteq>
     ''HTTPS://origin.livepeer.com/upload''"
  by (simp add: patchURLHost_def parse_upper_scheme parse_api_server URL_String_plain_def)

text \<open>
  Witness of the amended C9: a source that does not parse, a target on a host that contains
  the source's host, and a target on another host.
\<close>

theorem patchURLHost_cases_witness:
  "url_Parse_plain ''%zz'' = Inl (Errorf ''not a plain url'') \<and>
   patchURLHost url_Parse_plain URL_String_plain ''%zz'' ''https://livepeer.com'' = ''%zz'' \<and>
   patchURLHost url_Parse_plain URL_String_plain ''https://livepeer.com'' ''%zz'' =
     ''https://livepeer.com'' \<and>
   strings_Contains ''origin.livepeer.com'' ''livepeer.com'' \<and>
   patchURLHost url_Parse_plain URL_String_plain
     ''HTTPS://origin.livepeer.com/upload'' ''https://livepeer.com'' =
     ''https://origin.livepeer.com/upload'' \<and>
   \<not> strings_Contains ''origin.livepeer.com'' ''mdw.example.org'' \<and>
   patchURLHost url_Parse_plain URL_String_plain
     ''HTTPS://origin.livepeer.com/upload'' ''http://mdw.example.org'' =
     ''http://mdw.example.org/upload''"
proof -
  let ?t = "\<lparr>Scheme = ''https'', Opaque = [], User = [], Host = ''origin.livepeer.com'',
             Path = ''/upload'', RawQuery = [], Fragment = []\<rparr>"
  let ?s = "\<lparr>Scheme = ''https'', Opaque = [], User = [], Host = ''livepeer.com'',
             Path = [], RawQuery = [], Fragment = []\<rparr>"
  let ?r = "\<lparr>Scheme = ''http'', Opaque = [], User = [], Host = ''mdw.example.org'',
             Path = [], RawQuery = [], Fragment = []\<rparr>"
  have c: "strings_Contains (Host ?t) (Host ?s)" by simp
  have n: "\<not> strings_Contains (Host ?t) (Host ?r)" by simp
  have 1: "patchURLHost url_Parse_plain URL_String_plain ''%zz'' ''https://livepeer.com'' = ''%zz''"
    using patchURLHost_cases [of url_Parse_plain "''%zz''" "Errorf ''not a plain url''"]
      parse_not_a_url by blast
  have 2: "patchURLHost url_Parse_plain URL_String_plain ''https://livepeer.com'' ''%zz'' =
             ''https://livepeer.com''"
    using patchURLHost_cases [of url_Parse_plain _ "Errorf ''not a plain url''" _ "''%zz''"]
      parse_not_a_url by blast
  have 3: "patchURLHost url_Parse_plain URL_String_plain
             ''HTTPS://origin.livepeer.com/upload'' ''https://livepeer.com'' =
           URL_String_plain ?t"
    using patchURLHost_cases [of url_Parse_plain "''HTTPS://origin.livepeer.com/upload''" _
        URL_String_plain "''https://livepeer.com''" ?t ?s]
      parse_upper_scheme parse_api_server c by blast
  have 4: "patchURLHost url_Parse_plain URL_String_plain
             ''HTTPS://origin.livepeer.com/upload'' ''http://mdw.example.org'' =
           URL_String_plain \<lparr>Scheme = Scheme ?r, Opaque = Opaque ?t, User = User ?t,
             Host = Host ?r, Path = Path ?t, RawQuery = RawQuery ?t, Fragment = Fragment ?t\<rparr>"
    using patchURLHost_cases [of url_Parse_plain "''HTTPS://origin.livepeer.com/upload''" _
        URL_String_plain "''http://mdw.example.org''" ?t ?r]
      parse_upper_scheme parse_regional_server n by blast
  show ?thesis
    using parse_not_a_url 1 2 3 4 by (simp add: URL_String_plain_def)
qed

section \<open>Properties of the run of the phases\<close>

lemma consistent_begin: "consistent (Start_begin vt)"
  by (simp add: consistent_def Start_begin_def)

lemma recordError_fields [simp]:
  "finished (recordError r vt) = finished vt"
  "vtCtxDone (recordError r vt) = vtCtxDone vt"
  "watcherDone (recordError r vt) = watcherDone vt"
  "result (recordError r vt) = result vt"
  by (simp_all add: recordError_def split: option.splits)

lemma recordError_egErr:
  "egErr (recordError r vt) = (if egErr vt = None then r else egErr vt)"
  by (simp add: recordError_def split: option.splits)

lemma recordError_egCtxDone:
  "egCtxDone (recordError r vt) = (egCtxDone vt \<or> (r \<noteq> None \<and> egErr vt = None))"
  by (auto simp: recordError_def split: option.splits)

lemma allReturned_all: "allReturned vt = (\<forall>p. finished vt p \<noteq> None)"
proof
  assume a: "allReturned vt"
  show "\<forall>p. finished vt p \<noteq> None"
  proof
    fix p show "finished vt p \<noteq> None"
      using a by (cases p) (simp_all add: allReturned_def)
  qed
next
  assume "\<forall>p. finished vt p \<noteq> None"
  then show "allReturned vt" by (simp add: allReturned_def)
qed

lemma step_phase_consistent:
  assumes c: "consistent vt" and s: "step (PhaseReturns p r) vt = Some vt'"
  shows "consistent vt'"
proof -
  have free: "finished vt p = None" using s by (simp split: if_splits)
  have vt': "vt' = recordError r (vt\<lparr>finished := (finished vt)(p := Some r)\<rparr>)"
    using s free by simp
  have noresult: "result vt = None"
  proof (cases "result vt")
    case None then show ?thesis .
  next
    case (Some x)
    then have "allReturned vt" using c by (simp add: consistent_def)
    then have "\<forall>q. finished vt q \<noteq> None" by (simp add: allReturned_all)
    then show ?thesis using free by blast
  qed
  have 1: "egErr vt' = None \<longrightarrow> (\<forall>q e. finished vt' q \<noteq> Some (Some e))"
    using c by (auto simp: vt' recordError_egErr consistent_def split: if_splits)
  have 2: "\<forall>e. egErr vt' = Some e \<longrightarrow> (\<exists>q. finished vt' q = Some (Some e))"
  proof (intro allI impI)
    fix e assume e: "egErr vt' = Some e"
    show "\<exists>q. finished vt' q = Some (Some e)"
    proof (cases "egErr vt")
      case None
      then have "r = Some e" using e by (simp add: vt' recordError_egErr)
      then show ?thesis by (intro exI [of _ p]) (simp add: vt')
    next
      case (Some e0)
      then have "e0 = e" using e by (simp add: vt' recordError_egErr)
      then obtain q where q: "finished vt q = Some (Some e)"
        using c Some by (auto simp: consistent_def)
      then have "q \<noteq> p" using free by auto
      then show ?thesis using q by (intro exI [of _ q]) (simp add: vt')
    qed
  qed
  have 3: "egErr vt' \<noteq> None \<longrightarrow> egCtxDone vt'"
    using c by (auto simp: vt' recordError_egErr recordError_egCtxDone consistent_def
        split: if_splits)
  have 4: "vtCtxDone vt' \<longrightarrow> egCtxDone vt'"
    using c by (simp add: vt' recordError_egCtxDone consistent_def)
  have 5: "\<forall>x. result vt' = Some x \<longrightarrow> x = egErr vt' \<and> vtCtxDone vt' \<and> allReturned vt'"
    using noresult by (simp add: vt')
  have 6: "watcherDone vt' \<longrightarrow> vtCtxDone vt'"
    using c by (simp add: vt' consistent_def)
  show ?thesis
    unfolding consistent_def using 1 2 3 4 5 6 by blast
qed

lemma step_consistent:
  assumes "consistent vt" "step e vt = Some vt'"
  shows "consistent vt'"
proof (cases e)
  case (PhaseReturns p r)
  then show ?thesis using assms step_phase_consistent by blast
next
  case LifetimeCancelled
  then show ?thesis
    using assms by (auto simp: consistent_def Cancel_def allReturned_def)
next
  case WatcherWakes
  then show ?thesis
    using assms by (auto simp: consistent_def Cancel_def allReturned_def split: if_splits)
next
  case WaitReturns
  then show ?thesis
    using assms by (auto simp: consistent_def Cancel_def allReturned_def split: if_splits)
qed

lemma run_consistent: "consistent vt \<Longrightarrow> run es vt = Some vt' \<Longrightarrow> consistent vt'"
proof (induction es arbitrary: vt)
  case Nil
  then show ?case by simp
next
  case (Cons e es)
  then obtain vt1 where 1: "step e vt = Some vt1" "run es vt1 = Some vt'"
    by (auto split: option.splits)
  then show ?case using Cons.IH step_consistent [OF Cons.prems(1) 1(1)] by blast
qed

lemma step_Done: "Done vt \<Longrightarrow> step e vt = Some vt' \<Longrightarrow> Done vt'"
  by (cases e) (auto simp: Done_def Cancel_def split: if_splits)

lemma run_Done: "Done vt \<Longrightarrow> run es vt = Some vt' \<Longrightarrow> Done vt'"
proof (induction es arbitrary: vt)
  case Nil
  then show ?case by simp
next
  case (Cons e es)
  then obtain vt1 where 1: "step e vt = Some vt1" "run es vt1 = Some vt'"
    by (auto split: option.splits)
  then show ?case using Cons.IH step_Done [OF Cons.prems(1) 1(1)] by blast
qed

subsection \<open>The error that is kept\<close>

lemma firstError_Cons:
  "firstError (ev # es) = (case firstError [ev] of None \<Rightarrow> firstError es | Some err \<Rightarrow> Some err)"
proof (cases ev)
  case (PhaseReturns p r)
  then show ?thesis by (cases r) simp_all
qed simp_all

lemma step_egErr:
  assumes "step ev vt = Some vt'"
  shows "egErr vt' = (case egErr vt of None \<Rightarrow> firstError [ev] | Some err \<Rightarrow> Some err)"
proof (cases ev)
  case (PhaseReturns p r)
  then show ?thesis
    using assms by (cases r) (auto simp: recordError_egErr split: if_splits option.splits)
next
  case LifetimeCancelled
  then show ?thesis using assms by (auto simp: Cancel_def split: option.splits)
next
  case WatcherWakes
  then show ?thesis using assms by (auto simp: Cancel_def split: if_splits option.splits)
next
  case WaitReturns
  then show ?thesis using assms by (auto simp: Cancel_def split: if_splits option.splits)
qed

lemma run_egErr:
  "run es vt = Some vt' \<Longrightarrow>
   egErr vt' = (case egErr vt of None \<Rightarrow> firstError es | Some err \<Rightarrow> Some err)"
proof (induction es arbitrary: vt)
  case Nil
  then show ?case by (simp split: option.splits)
next
  case (Cons ev es)
  then obtain vt1 where 1: "step ev vt = Some vt1" "run es vt1 = Some vt'"
    by (auto split: option.splits)
  have a: "egErr vt' = (case egErr vt1 of None \<Rightarrow> firstError es | Some err \<Rightarrow> Some err)"
    using Cons.IH [OF 1(2)] .
  have b: "egErr vt1 = (case egErr vt of None \<Rightarrow> firstError [ev] | Some err \<Rightarrow> Some err)"
    using step_egErr [OF 1(1)] .
  show ?case
    unfolding a b by (subst firstError_Cons [of ev es]) (simp split: option.splits)
qed

lemma run_begin_egErr:
  "run es (Start_begin vt0) = Some vt \<Longrightarrow> egErr vt = firstError es"
  using run_egErr [of es "Start_begin vt0" vt] by (simp add: Start_begin_def)

lemma run_begin_consistent: "run es (Start_begin vt0) = Some vt \<Longrightarrow> consistent vt"
  using run_consistent [OF consistent_begin] by blast

text \<open>
  C5.  In every run of \<^verbatim>\<open>Start\<close>, whatever the order of events, \<^verbatim>\<open>Start\<close> returns the
  first error that a phase returned, and nil if there was none; once all three phases have
  returned it does return.  So if all three phases returned nil, \<^verbatim>\<open>Start\<close> returns nil;
  and if exactly one phase returned an error, \<^verbatim>\<open>Start\<close> returns that error, and by then
  the context derived for the group and the session's context, on which the sibling phases
  run, are cancelled.  A sibling that is interrupted by the cancellation and returns an
  error of its own does not change the result.  From the moment a phase has returned an
  error the group's context is cancelled, and the session's context is cancelled as well or
  the waiting goroutine is ready to run and cancels it.
\<close>

theorem Start_result:
  "(run es (Start_begin vt0) = Some vt \<and> result vt = Some r \<longrightarrow> r = firstError es) \<and>
   (run es (Start_begin vt0) = Some vt \<and> allReturned vt \<and> result vt = None \<longrightarrow>
      (\<exists>vt'. step WaitReturns vt = Some vt' \<and> result vt' = Some (firstError es))) \<and>
   (run es (Start_begin vt0) = Some vt \<and> result vt = Some r \<and>
    finished vt UrlImport = Some None \<and> finished vt DirectUpload = Some None \<and>
    finished vt ResumableUpload = Some None \<longrightarrow> r = None) \<and>
   (run es (Start_begin vt0) = Some vt \<and> result vt = Some r \<and>
    finished vt p = Some (Some e) \<and> (\<forall>q. q \<noteq> p \<longrightarrow> finished vt q = Some None) \<longrightarrow>
      r = Some e \<and> egCtxDone vt \<and> vtCtxDone vt) \<and>
   (run es (Start_begin vt0) = Some vt \<and> finished vt p = Some (Some e) \<longrightarrow>
      egCtxDone vt \<and> (watcherDone vt \<longrightarrow> vtCtxDone vt) \<and>
      (\<not> watcherDone vt \<longrightarrow> (\<exists>vt'. step WatcherWakes vt = Some vt' \<and> vtCtxDone vt')))"
proof (intro conjI impI)
  assume a: "run es (Start_begin vt0) = Some vt \<and> result vt = Some r"
  then have "consistent vt" using run_begin_consistent by blast
  then have "r = egErr vt" using a by (simp add: consistent_def)
  then show "r = firstError es" using a run_begin_egErr by blast
next
  assume a: "run es (Start_begin vt0) = Some vt \<and> allReturned vt \<and> result vt = None"
  then have "egErr vt = firstError es" using run_begin_egErr by blast
  then show "\<exists>vt'. step WaitReturns vt = Some vt' \<and> result vt' = Some (firstError es)"
    using a by (simp add: Cancel_def)
next
  assume a: "run es (Start_begin vt0) = Some vt \<and> result vt = Some r \<and>
    finished vt UrlImport = Some None \<and> finished vt DirectUpload = Some None \<and>
    finished vt ResumableUpload = Some None"
  then have c: "consistent vt" using run_begin_consistent by blast
  have "egErr vt = None"
  proof (cases "egErr vt")
    case None then show ?thesis .
  next
    case (Some e')
    then obtain q where "finished vt q = Some (Some e')" using c by (auto simp: consistent_def)
    then show ?thesis using a by (cases q) simp_all
  qed
  then show "r = None" using a c by (simp add: consistent_def)
next
  assume a: "run es (Start_begin vt0) = Some vt \<and> result vt = Some r \<and>
    finished vt p = Some (Some e) \<and> (\<forall>q. q \<noteq> p \<longrightarrow> finished vt q = Some None)"
  then have c: "consistent vt" using run_begin_consistent by blast
  have "egErr vt \<noteq> None" using a c by (auto simp: consistent_def)
  then obtain e' where e': "egErr vt = Some e'" by blast
  then obtain q where q: "finished vt q = Some (Some e')" using c by (auto simp: consistent_def)
  have "q = p" using a q by (cases "q = p") auto
  then have "e' = e" using a q by simp
  then show "r = Some e" using a c e' by (simp add: consistent_def)
  show "egCtxDone vt" using a c by (simp add: consistent_def)
  show "vtCtxDone vt" using a c by (simp add: consistent_def)
next
  assume a: "run es (Start_begin vt0) = Some vt \<and> finished vt p = Some (Some e)"
  then have c: "consistent vt" using run_begin_consistent by blast
  then show eg: "egCtxDone vt" using a by (cases "egErr vt") (auto simp: consistent_def)
  show "vtCtxDone vt" if "watcherDone vt" using c that by (simp add: consistent_def)
  show "\<exists>vt'. step WatcherWakes vt = Some vt' \<and> vtCtxDone vt'" if "\<not> watcherDone vt"
    using eg that by (simp add: Cancel_def)
qed

text \<open>
  C10.  In every run, once \<^verbatim>\<open>Start\<close> has returned the session's lifetime is
  cancelled, so that its done signal has fired, whatever the run was; and a cancelled
  lifetime stays cancelled through everything that happens afterwards.
\<close>

theorem Start_cancels_lifetime:
  "(run es (Start_begin vt0) = Some vt \<and> result vt \<noteq> None \<longrightarrow> Done vt) \<and>
   (Done vt \<and> run es' vt = Some vt' \<longrightarrow> Done vt')"
proof (intro conjI impI)
  assume a: "run es (Start_begin vt0) = Some vt \<and> result vt \<noteq> None"
  then have "consistent vt" using run_consistent [OF consistent_begin] by blast
  then show "Done vt" using a by (auto simp: consistent_def Done_def)
next
  assume "Done vt \<and> run es' vt = Some vt'"
  then show "Done vt'" using run_Done by blast
qed


lemma failingRun_state:
  "\<exists>vt r. run failingRun (Start_begin (NewVodTester False)) = Some vt \<and> result vt = Some r \<and>
     finished vt UrlImport = Some None \<and> finished vt DirectUpload = Some (Some uploadFailed) \<and>
     finished vt ResumableUpload = Some None"
  by (simp add: failingRun_def Start_begin_def NewVodTester_def recordError_def Cancel_def
      allReturned_def)

lemma interruptedRun_state:
  "\<exists>vt r. run interruptedRun (Start_begin (NewVodTester False)) = Some vt \<and> result vt = Some r \<and>
     finished vt DirectUpload = Some (Some uploadFailed) \<and>
     finished vt ResumableUpload = Some (Some uploadInterrupted)"
  by (simp add: interruptedRun_def Start_begin_def NewVodTester_def recordError_def Cancel_def
      allReturned_def)

lemma justFailed_state:
  "\<exists>vt. run justFailed (Start_begin (NewVodTester False)) = Some vt \<and>
     finished vt DirectUpload = Some (Some uploadFailed) \<and>
     finished vt ResumableUpload = None \<and> \<not> watcherDone vt \<and> \<not> vtCtxDone vt"
  by (simp add: justFailed_def Start_begin_def NewVodTester_def recordError_def)

lemma passingRun_state:
  "\<exists>vt r. run passingRun (Start_begin (NewVodTester False)) = Some vt \<and> result vt = Some r \<and>
     finished vt UrlImport = Some None \<and> finished vt DirectUpload = Some None \<and>
     finished vt ResumableUpload = Some None \<and> (\<exists>vt'. run afterwards vt = Some vt')"
  by (simp add: passingRun_def afterwards_def Start_begin_def NewVodTester_def recordError_def
      Cancel_def allReturned_def)

text \<open>
  Witness of C5: a run in which the direct upload fails while the other two phases
  succeed; a run in which all three succeed; a run in which the resumable upload is
  interrupted after the failure of the direct upload; and the state right after the
  failure, in which the resumable upload is still running on a context that is not yet
  cancelled, and the waiting goroutine cancels it.
\<close>

theorem Start_result_witness:
  "(\<exists>vt. run failingRun (Start_begin (NewVodTester False)) = Some vt \<and>
       finished vt UrlImport = Some None \<and> finished vt DirectUpload = Some (Some uploadFailed) \<and>
       finished vt ResumableUpload = Some None \<and>
       result vt = Some (Some uploadFailed) \<and> egCtxDone vt \<and> vtCtxDone vt) \<and>
   (\<exists>vt. run passingRun (Start_begin (NewVodTester False)) = Some vt \<and>
       finished vt UrlImport = Some None \<and> finished vt DirectUpload = Some None \<and>
       finished vt ResumableUpload = Some None \<and> result vt = Some None) \<and>
   (\<exists>vt. run interruptedRun (Start_begin (NewVodTester False)) = Some vt \<and>
       finished vt DirectUpload = Some (Some uploadFailed) \<and>
       finished vt ResumableUpload = Some (Some uploadInterrupted) \<and>
       result vt = Some (Some uploadFailed)) \<and>
   (\<exists>vt vt'. run justFailed (Start_begin (NewVodTester False)) = Some vt \<and>
       finished vt DirectUpload = Some (Some uploadFailed) \<and>
       finished vt ResumableUpload = None \<and> \<not> vtCtxDone vt \<and> egCtxDone vt \<and>
       step WatcherWakes vt = Some vt' \<and> vtCtxDone vt')"
proof (intro conjI)
  from failingRun_state obtain vt r where
    f: "run failingRun (Start_begin (NewVodTester False)) = Some vt" "result vt = Some r"
       "finished vt UrlImport = Some None" "finished vt DirectUpload = Some (Some uploadFailed)"
       "finished vt ResumableUpload = Some None"
    by blast
  have others: "\<forall>q. q \<noteq> DirectUpload \<longrightarrow> finished vt q = Some None"
  proof (intro allI impI)
    fix q :: phase assume "q \<noteq> DirectUpload"
    then show "finished vt q = Some None" using f(3,5) by (cases q) simp_all
  qed
  from Start_result [of failingRun "NewVodTester False" vt r DirectUpload uploadFailed] f others
  have "r = Some uploadFailed \<and> egCtxDone vt \<and> vtCtxDone vt" by blast
  then show "\<exists>vt. run failingRun (Start_begin (NewVodTester False)) = Some vt \<and>
       finished vt UrlImport = Some None \<and> finished vt DirectUpload = Some (Some uploadFailed) \<and>
       finished vt ResumableUpload = Some None \<and>
       result vt = Some (Some uploadFailed) \<and> egCtxDone vt \<and> vtCtxDone vt"
    using f by blast
next
  from passingRun_state obtain vt r where
    p: "run passingRun (Start_begin (NewVodTester False)) = Some vt" "result vt = Some r"
       "finished vt UrlImport = Some None" "finished vt DirectUpload = Some None"
       "finished vt ResumableUpload = Some None"
    by blast
  from Start_result [of passingRun "NewVodTester False" vt r] p
  have "r = None" by blast
  then show "\<exists>vt. run passingRun (Start_begin (NewVodTester False)) = Some vt \<and>
       finished vt UrlImport = Some None \<and> finished vt DirectUpload = Some None \<and>
       finished vt ResumableUpload = Some None \<and> result vt = Some None"
    using p by blast
next
  from interruptedRun_state obtain vt r where
    i: "run interruptedRun (Start_begin (NewVodTester False)) = Some vt" "result vt = Some r"
       "finished vt DirectUpload = Some (Some uploadFailed)"
       "finished vt ResumableUpload = Some (Some uploadInterrupted)"
    by blast
  from Start_result [of interruptedRun "NewVodTester False" vt r] i
  have "r = firstError interruptedRun" by blast
  then have "r = Some uploadFailed" by (simp add: interruptedRun_def)
  then show "\<exists>vt. run interruptedRun (Start_begin (NewVodTester False)) = Some vt \<and>
       finished vt DirectUpload = Some (Some uploadFailed) \<and>
       finished vt ResumableUpload = Some (Some uploadInterrupted) \<and>
       result vt = Some (Some uploadFailed)"
    using i by blast
next
  from justFailed_state obtain vt where
    j: "run justFailed (Start_begin (NewVodTester False)) = Some vt"
       "finished vt DirectUpload = Some (Some uploadFailed)"
       "finished vt ResumableUpload = None" "\<not> watcherDone vt" "\<not> vtCtxDone vt"
    by blast
  from Start_result [of justFailed "NewVodTester False" vt _ DirectUpload uploadFailed] j
  have "egCtxDone vt \<and> (\<exists>vt'. step WatcherWakes vt = Some vt' \<and> vtCtxDone vt')" by blast
  then show "\<exists>vt vt'. run justFailed (Start_begin (NewVodTester False)) = Some vt \<and>
       finished vt DirectUpload = Some (Some uploadFailed) \<and>
       finished vt ResumableUpload = None \<and> \<not> vtCtxDone vt \<and> egCtxDone vt \<and>
       step WatcherWakes vt = Some vt' \<and> vtCtxDone vt'"
    using j by blast
qed

text \<open>
  Witness of C10: a run to the return of \<^verbatim>\<open>Start\<close>, and what happens afterwards (the
  waiting goroutine runs, the global context is cancelled).
\<close>

theorem Start_cancels_lifetime_witness:
  "\<exists>vt vt'. run passingRun (Start_begin (NewVodTester False)) = Some vt \<and> result vt \<noteq> None \<and>
      Done vt \<and> run afterwards vt = Some vt' \<and> Done vt'"
proof -
  from passingRun_state obtain vt r vt' where
    p: "run passingRun (Start_begin (NewVodTester False)) = Some vt" "result vt = Some r"
       "run afterwards vt = Some vt'"
    by blast
  from Start_cancels_lifetime [of passingRun "NewVodTester False" vt] p
  have d: "Done vt" by simp
  from Start_cancels_lifetime [of _ _ vt afterwards vt'] d p(3)
  have "Done vt'" by blast
  then show ?thesis using p d by auto
qed

end
